theory Spec2Isabelle
  imports Main "HOL-Library.Word"
begin

unbundle bit_operations_syntax

section \<open>Outcomes of a run\<close>

text \<open>
  The interpreter of \<^verbatim>\<open>tiny.c\<close> keeps the whole machine in global variables and ends
  the process on every error. The model passes the machine explicitly and returns the
  way a function ends as a value: the diagnostic of an \<^verbatim>\<open>exit(1)\<close>, a failed
  \<^verbatim>\<open>assert\<close>, an operation whose behaviour C leaves undefined (an access outside an
  array, the use of a freed object, a signed overflow), or the exhaustion of the
  recursion budget of a function that need not return.
\<close>

datatype diagnostic =
    StackOverflow
  | StackUnderflow
  | ArrayIndexOutOfBounds int
  | UninitializedVariable string
  | NonExistentLocal string
  | ExpectedCloseParen string
  | ExpectedCloseBrace
  | LocalInGlobalScope
  | ProcInLocalScope
  | UnexpectedToken int
  | BadAssignmentLHS
  | NamedMemberOnNonGlobal

datatype error =
    Fatal diagnostic
  | AssertFailed string
  | Undefined string
  | OutOfFuel

definition thenE :: "error + 'a \<Rightarrow> ('a \<Rightarrow> error + 'b) \<Rightarrow> error + 'b" where
  "thenE m f = (case m of Inl e \<Rightarrow> Inl e | Inr x \<Rightarrow> f x)"

section \<open>Numbers\<close>

text \<open>
  A \<^verbatim>\<open>double\<close> is its IEEE-754 binary64 bit pattern: sign bit, eleven exponent bits,
  fifty-two fraction bits. The comparison \<^verbatim>\<open>==\<close> of C is decided by the pattern: a NaN
  (exponent all ones, fraction not zero) equals nothing, the two zeros equal each other,
  and two other numbers are equal when their patterns are.
\<close>

type_synonym double = "64 word"

definition isnan :: "double \<Rightarrow> bool" where
  "isnan d \<longleftrightarrow> d AND 0x7FF0000000000000 = 0x7FF0000000000000 \<and> d AND 0x000FFFFFFFFFFFFF \<noteq> 0"

definition iszero :: "double \<Rightarrow> bool" where
  "iszero d \<longleftrightarrow> d AND 0x7FFFFFFFFFFFFFFF = 0"

definition double_eq :: "double \<Rightarrow> double \<Rightarrow> bool" where
  "double_eq a b \<longleftrightarrow> \<not> isnan a \<and> \<not> isnan b \<and> (a = b \<or> (iszero a \<and> iszero b))"

section \<open>The machine\<close>

definition MAX_PROG_LEN :: int where "MAX_PROG_LEN = 2048"
definition MAX_CONST_AMT :: int where "MAX_CONST_AMT = 256"
definition MAX_STACK :: int where "MAX_STACK = 1024"
definition MAX_INDIR :: int where "MAX_INDIR = 1024"
definition MAX_VARS :: int where "MAX_VARS = 128"
definition MAX_FUNCS :: int where "MAX_FUNCS = 128"
definition MAX_ARGS :: int where "MAX_ARGS = 32"
definition MAX_MEMBERS :: int where "MAX_MEMBERS = 32"
definition MAX_READ_WRITE :: int where "MAX_READ_WRITE = 128"
definition INT_MAX :: int where "INT_MAX = 2147483647"

text \<open>
  The integers of the machine are \<^verbatim>\<open>int\<close>s of 32 bits. The model computes on unbounded
  integers and gives the outcome \<open>Undefined\<close> where a result leaves this range: a signed
  overflow.
\<close>

definition int_range :: "int \<Rightarrow> bool" where
  "int_range x \<longleftrightarrow> - INT_MAX - 1 \<le> x \<and> x \<le> INT_MAX"

text \<open>A pointer to an object is the address of the object, or \<^verbatim>\<open>NULL\<close>.\<close>

type_synonym ptr = "nat option"

datatype ObjectType = OBJ_NUM | OBJ_STRING | OBJ_NATIVE | OBJ_ARRAY

text \<open>
  Modelled from the spec: the declaration of \<^verbatim>\<open>Object\<close> is in \<^verbatim>\<open>tiny.h\<close>, which is not
  part of the sources. Following the spec's data model and the fields \<^verbatim>\<open>tiny.c\<close> uses, an
  object carries a mark bit, a type tag and one member of a union: a number, a string,
  an array of pointers with its length, or a native pointer with an optional free hook
  and an optional mark hook. The tag is the constructor of the member. \<^verbatim>\<open>NewObject\<close>
  sets the tag and leaves the union as \<^verbatim>\<open>malloc\<close> returned it: \<open>Unwritten ty\<close> is an
  object with the tag \<open>ty\<close> whose union has not been written, and reading a member of it
  is undefined. The link \<^verbatim>\<open>next\<close> is the position of the object in the list \<open>GCHead\<close>
  of the machine. A mark hook is host code that calls \<^verbatim>\<open>Mark\<close> on the objects its
  native value owns: it is represented by the list of these objects.
\<close>

datatype Member =
    Number double
  | String string
  | Native (ptrFree: bool) (ptrMark: "ptr list option")
  | Array (values_of: "ptr list")
  | Unwritten ObjectType

record Object =
  marked :: bool
  member :: Member

fun type_of :: "Member \<Rightarrow> ObjectType" where
  "type_of (Number _) = OBJ_NUM"
| "type_of (String _) = OBJ_STRING"
| "type_of (Native _ _) = OBJ_NATIVE"
| "type_of (Array _) = OBJ_ARRAY"
| "type_of (Unwritten ty) = ty"

datatype ConstInfo = CST_NUM double | CST_STR string

record Variable =
  name :: string
  initialized :: bool
  object :: ptr
  members :: "string list"

record LocalDecl =
  local_name :: string
  index :: int
  scope :: int

text \<open>
  The lexer \<^verbatim>\<open>GetToken\<close> is represented by what it delivers: the code of the token
  (a character code, or one of the negative codes \<^verbatim>\<open>TOK_...\<close>), the text it leaves in
  \<^verbatim>\<open>TokenBuffer\<close> when the token writes the buffer, and the value it leaves in
  \<^verbatim>\<open>TokenNumber\<close> when the token is a number.
\<close>

record lexeme =
  tok :: int
  buf :: "string option"
  num :: "double option"

datatype printed = PrintNumber double | PrintString string | MarkNullMessage

record machine =
  Program :: "nat \<Rightarrow> 8 word"
  ProgramLength :: int
  ProgramCounter :: int
  FramePointer :: int
  GCHead :: "(nat \<times> Object) list"
  NumObjects :: int
  MaxNumObjects :: int
  NextAddress :: nat
  Stack :: "nat \<Rightarrow> ptr"
  StackSize :: int
  IndirStack :: "nat \<Rightarrow> int"
  IndirStackSize :: int
  Variables :: "nat \<Rightarrow> Variable"
  VariableAmount :: int
  RuntimeVariableAmount :: int
  FunctionNames :: "nat \<Rightarrow> string"
  FunctionPcs :: "nat \<Rightarrow> int"
  FunctionAmount :: int
  ForeignFunctionNames :: "nat \<Rightarrow> string"
  ForeignAmount :: int
  CurrScope :: int
  CurrNumLocals :: int
  NumArgsDeclared :: int
  LocalDeclarations :: "LocalDecl list"
  Constants :: "nat \<Rightarrow> ConstInfo"
  ConstantAmount :: int
  CurTok :: int
  TokenBuffer :: string
  TokenNumber :: double
  Source :: "lexeme list"
  Stdin :: "char list"
  Stdout :: "printed list"

section \<open>The constant pool\<close>

text \<open>
  \<^verbatim>\<open>RegisterNumber\<close> and \<^verbatim>\<open>RegisterString\<close> search the pool from index 0 for an entry of
  the same kind that compares equal (\<^verbatim>\<open>==\<close> on numbers, \<^verbatim>\<open>strcmp\<close> on strings) and
  return the first one; otherwise they append. The pool grows by \<^verbatim>\<open>NewConst\<close>, which
  doubles the allocation before the amount reaches the capacity: the model keeps the
  entries and their amount, not the capacity.
\<close>

definition same_number :: "double \<Rightarrow> ConstInfo \<Rightarrow> bool" where
  "same_number v c = (case c of CST_NUM n \<Rightarrow> double_eq n v | CST_STR _ \<Rightarrow> False)"

definition same_string :: "string \<Rightarrow> ConstInfo \<Rightarrow> bool" where
  "same_string v c = (case c of CST_NUM _ \<Rightarrow> False | CST_STR t \<Rightarrow> t = v)"

definition first_index :: "('a \<Rightarrow> bool) \<Rightarrow> (nat \<Rightarrow> 'a) \<Rightarrow> int \<Rightarrow> nat option" where
  "first_index P a n = find (\<lambda>i. P (a i)) [0..<nat n]"

definition add_constant :: "ConstInfo \<Rightarrow> machine \<Rightarrow> error + int \<times> machine" where
  "add_constant c s =
     (if \<not> ConstantAmount s < MAX_CONST_AMT then Inl (AssertFailed ''Constant Overflow!'')
      else if ConstantAmount s < 0 then Inl (Undefined ''Constants written outside the pool'')
      else Inr (ConstantAmount s,
                s\<lparr>Constants := (Constants s)(nat (ConstantAmount s) := c),
                  ConstantAmount := ConstantAmount s + 1\<rparr>))"

definition RegisterNumber :: "double \<Rightarrow> machine \<Rightarrow> error + int \<times> machine" where
  "RegisterNumber v s =
     (case first_index (same_number v) (Constants s) (ConstantAmount s) of
        Some i \<Rightarrow> Inr (int i, s)
      | None \<Rightarrow> add_constant (CST_NUM v) s)"

definition RegisterString :: "string \<Rightarrow> machine \<Rightarrow> error + int \<times> machine" where
  "RegisterString v s =
     (case first_index (same_string v) (Constants s) (ConstantAmount s) of
        Some i \<Rightarrow> Inr (int i, s)
      | None \<Rightarrow> add_constant (CST_STR v) s)"

text \<open>A sequence of registrations, each a number or a string, stops at the first that fails.\<close>

datatype registration = NumberConstant double | StringConstant string

fun Register :: "registration \<Rightarrow> machine \<Rightarrow> error + int \<times> machine" where
  "Register (NumberConstant v) s = RegisterNumber v s"
| "Register (StringConstant v) s = RegisterString v s"

fun RegisterAll :: "registration list \<Rightarrow> machine \<Rightarrow> error + machine" where
  "RegisterAll [] s = Inr s"
| "RegisterAll (r # rs) s = thenE (Register r s) (\<lambda>(i, s1). RegisterAll rs s1)"

text \<open>Two constants are the same for the pool when its search takes one for the other.\<close>

fun same_constant :: "registration \<Rightarrow> registration \<Rightarrow> bool" where
  "same_constant (NumberConstant a) (NumberConstant b) = double_eq a b"
| "same_constant (StringConstant a) (StringConstant b) = (a = b)"
| "same_constant _ _ = False"

text \<open>
  The entry a registration appends, the test the search applies for it, and the fact
  that index \<open>i\<close> is the first entry of the pool that passes this test.
\<close>

definition entry_of :: "registration \<Rightarrow> ConstInfo" where
  "entry_of r = (case r of NumberConstant v \<Rightarrow> CST_NUM v | StringConstant v \<Rightarrow> CST_STR v)"

definition same_as :: "registration \<Rightarrow> ConstInfo \<Rightarrow> bool" where
  "same_as r = (case r of NumberConstant v \<Rightarrow> same_number v | StringConstant v \<Rightarrow> same_string v)"

definition registered_at :: "registration \<Rightarrow> nat \<Rightarrow> machine \<Rightarrow> bool" where
  "registered_at r i s \<longleftrightarrow>
     int i < ConstantAmount s \<and> same_as r (Constants s i) \<and> (\<forall>j<i. \<not> same_as r (Constants s j))"

section \<open>The heap and the collector\<close>

text \<open>
  The heap is the list of the live objects with their addresses, in the order of the
  intrusive list that starts at \<^verbatim>\<open>GCHead\<close>. \<^verbatim>\<open>free\<close> removes an object from it, and a
  pointer to an address that is not in the list is dangling: reading or writing through
  it, like reading through \<^verbatim>\<open>NULL\<close>, is undefined. \<^verbatim>\<open>emalloc\<close> returns an address that no
  live object has; the model takes the next address never used before, and does not
  model the exhaustion of memory.
\<close>

definition deref :: "machine \<Rightarrow> ptr \<Rightarrow> error + Object" where
  "deref s p =
     (case p of
        None \<Rightarrow> Inl (Undefined ''null pointer dereferenced'')
      | Some a \<Rightarrow>
          (case map_of (GCHead s) a of
             None \<Rightarrow> Inl (Undefined ''freed object used'')
           | Some ob \<Rightarrow> Inr ob))"

definition number_of :: "machine \<Rightarrow> ptr \<Rightarrow> error + double" where
  "number_of s p =
     thenE (deref s p) (\<lambda>ob.
       case member ob of
         Number d \<Rightarrow> Inr d
       | _ \<Rightarrow> Inl (Undefined ''number read from another union member''))"

definition array_of :: "machine \<Rightarrow> ptr \<Rightarrow> error + ptr list" where
  "array_of s p =
     thenE (deref s p) (\<lambda>ob.
       case member ob of
         Array vs \<Rightarrow> Inr vs
       | _ \<Rightarrow> Inl (Undefined ''array read from another union member''))"

definition update_object :: "nat \<Rightarrow> (Object \<Rightarrow> Object) \<Rightarrow> machine \<Rightarrow> machine" where
  "update_object a f s =
     s\<lparr>GCHead := map (\<lambda>(b, ob). if b = a then (b, f ob) else (b, ob)) (GCHead s)\<rparr>"

text \<open>
  \<^verbatim>\<open>Mark\<close> returns at once on \<^verbatim>\<open>NULL\<close> (after a message) and on a marked object.
  Otherwise it runs the mark hook of a native value, then calls itself on every
  element of an array that is not \<^verbatim>\<open>NULL\<close>, and sets the mark bit of the object last.
  The recursion of the source is not bounded by anything, so the model counts it down:
  every call and every iteration of the loop takes one unit of the budget, and an
  exhausted budget is the outcome \<open>OutOfFuel\<close>.
\<close>

fun Mark :: "nat \<Rightarrow> ptr \<Rightarrow> machine \<Rightarrow> error + machine"
  and MarkHook :: "nat \<Rightarrow> ptr list \<Rightarrow> machine \<Rightarrow> error + machine"
  and MarkValues :: "nat \<Rightarrow> nat \<Rightarrow> nat \<Rightarrow> machine \<Rightarrow> error + machine"
where
  "Mark 0 obj s = Inl OutOfFuel"
| "Mark (Suc n) obj s =
     (case obj of
        None \<Rightarrow> Inr (s\<lparr>Stdout := Stdout s @ [MarkNullMessage]\<rparr>)
      | Some a \<Rightarrow>
          (case map_of (GCHead s) a of
             None \<Rightarrow> Inl (Undefined ''freed object used'')
           | Some ob \<Rightarrow>
               if marked ob then Inr s
               else if member ob = Unwritten OBJ_NATIVE \<or> member ob = Unwritten OBJ_ARRAY
               then Inl (Undefined ''unwritten union member read'')
               else
                 thenE (case member ob of
                          Native _ (Some children) \<Rightarrow> MarkHook n children s
                        | _ \<Rightarrow> Inr s) (\<lambda>s1.
                 thenE (case member ob of
                          Array _ \<Rightarrow> MarkValues n a 0 s1
                        | _ \<Rightarrow> Inr s1) (\<lambda>s2.
                 Inr (update_object a (\<lambda>ob. ob\<lparr>marked := True\<rparr>) s2)))))"
| "MarkHook 0 children s = Inl OutOfFuel"
| "MarkHook (Suc n) [] s = Inr s"
| "MarkHook (Suc n) (c # children) s = thenE (Mark n c s) (MarkHook n children)"
| "MarkValues 0 a i s = Inl OutOfFuel"
| "MarkValues (Suc n) a i s =
     thenE (array_of s (Some a)) (\<lambda>vs.
       if i < length vs then
         (case vs ! i of
            None \<Rightarrow> MarkValues n a (Suc i) s
          | Some c \<Rightarrow> thenE (Mark n (Some c) s) (MarkValues n a (Suc i)))
       else Inr s)"

fun MarkRoots :: "nat \<Rightarrow> ptr list \<Rightarrow> machine \<Rightarrow> error + machine" where
  "MarkRoots n [] s = Inr s"
| "MarkRoots n (r # roots) s = thenE (Mark n r s) (MarkRoots n roots)"

definition MarkAll :: "nat \<Rightarrow> machine \<Rightarrow> error + machine" where
  "MarkAll n s =
     (if MAX_STACK < StackSize s \<or> MAX_VARS < RuntimeVariableAmount s
      then Inl (Undefined ''root read outside its array'')
      else
        thenE (MarkRoots n (map (Stack s) [0..<nat (StackSize s)]) s) (\<lambda>s1.
          MarkRoots n (map (\<lambda>i. object (Variables s1 i)) [0..<nat (RuntimeVariableAmount s1)]) s1))"

text \<open>
  \<^verbatim>\<open>Sweep\<close> walks the list: an unmarked object is unlinked and deleted and the count
  goes down by one, a marked object stays and loses its mark. The free hook of a
  native value is host code and leaves the machine alone.
\<close>

fun sweep_list :: "(nat \<times> Object) list \<Rightarrow> int \<Rightarrow> (nat \<times> Object) list \<times> int" where
  "sweep_list [] k = ([], k)"
| "sweep_list ((a, ob) # rest) k =
     (if \<not> marked ob then sweep_list rest (k - 1)
      else (case sweep_list rest k of (kept, k') \<Rightarrow> ((a, ob\<lparr>marked := False\<rparr>) # kept, k')))"

definition Sweep :: "machine \<Rightarrow> machine" where
  "Sweep s =
     (case sweep_list (GCHead s) (NumObjects s) of
        (kept, k) \<Rightarrow> s\<lparr>GCHead := kept, NumObjects := k\<rparr>)"

definition GarbageCollect :: "nat \<Rightarrow> machine \<Rightarrow> error + machine" where
  "GarbageCollect n s =
     thenE (MarkAll n s) (\<lambda>s1.
       let s2 = Sweep s1 in
       if INT_MAX < NumObjects s2 * 2 \<or> NumObjects s2 * 2 < - INT_MAX - 1
       then Inl (Undefined ''signed overflow'')
       else Inr (s2\<lparr>MaxNumObjects := NumObjects s2 * 2\<rparr>))"

text \<open>
  \<^verbatim>\<open>NewObject\<close> sets the type, links the object at the head of the list, clears the
  mark and counts the object. It does not write the union: that is left to the caller.
\<close>

definition allocate :: "ObjectType \<Rightarrow> machine \<Rightarrow> error + nat \<times> machine" where
  "allocate ty s =
     (if INT_MAX \<le> NumObjects s then Inl (Undefined ''signed overflow'')
      else Inr (NextAddress s,
                s\<lparr>GCHead := (NextAddress s, \<lparr>marked = False, member = Unwritten ty\<rparr>) # GCHead s,
                  NumObjects := NumObjects s + 1,
                  NextAddress := Suc (NextAddress s)\<rparr>))"

definition NewObject :: "nat \<Rightarrow> ObjectType \<Rightarrow> machine \<Rightarrow> error + nat \<times> machine" where
  "NewObject n ty s =
     (if MaxNumObjects s \<le> NumObjects s then thenE (GarbageCollect n s) (allocate ty)
      else allocate ty s)"

definition set_member :: "nat \<Rightarrow> Member \<Rightarrow> machine \<Rightarrow> machine" where
  "set_member a m s = update_object a (\<lambda>ob. ob\<lparr>member := m\<rparr>) s"

definition NewNative :: "nat \<Rightarrow> bool \<Rightarrow> ptr list option \<Rightarrow> machine \<Rightarrow> error + nat \<times> machine" where
  "NewNative n free_hook mark_hook s =
     thenE (NewObject n OBJ_NATIVE s) (\<lambda>(obj, s1). Inr (obj, set_member obj (Native free_hook mark_hook) s1))"

definition NewNumber :: "nat \<Rightarrow> double \<Rightarrow> machine \<Rightarrow> error + nat \<times> machine" where
  "NewNumber n v s =
     thenE (NewObject n OBJ_NUM s) (\<lambda>(obj, s1). Inr (obj, set_member obj (Number v) s1))"

definition NewString :: "nat \<Rightarrow> string \<Rightarrow> machine \<Rightarrow> error + nat \<times> machine" where
  "NewString n v s =
     thenE (NewObject n OBJ_STRING s) (\<lambda>(obj, s1). Inr (obj, set_member obj (String v) s1))"

text \<open>
  \<^verbatim>\<open>NewArray\<close> asks \<^verbatim>\<open>emalloc\<close> for \<^verbatim>\<open>sizeof(Object*) * length\<close> bytes and clears them. A
  negative length becomes a size no allocator grants, and \<^verbatim>\<open>emalloc\<close> asserts.
\<close>

definition NewArray :: "nat \<Rightarrow> int \<Rightarrow> machine \<Rightarrow> error + nat \<times> machine" where
  "NewArray n len s =
     thenE (NewObject n OBJ_ARRAY s) (\<lambda>(obj, s1).
       if len < 0 then Inl (AssertFailed ''Out of memory!'')
       else Inr (obj, set_member obj (Array (replicate (nat len) None)) s1))"

section \<open>Conversions and comparisons of numbers\<close>

text \<open>
  The cast \<^verbatim>\<open>(int)\<close> truncates towards zero and is undefined for a NaN, an infinity and
  a value outside the range of \<^verbatim>\<open>int\<close>; the conversion back is exact. The ordering
  comparisons read sign and magnitude. The four arithmetic operations round, and are
  left to the host (see \<open>host\<close> below).
\<close>

definition double_to_int :: "double \<Rightarrow> int option" where
  "double_to_int d =
     (let e = unat (drop_bit 52 d AND 0x7FF);
          f = uint (d AND 0x000FFFFFFFFFFFFF)
      in if e = 2047 then None
         else if e < 1023 then Some 0
         else
           let m = 2 ^ 52 + f;
               mag = (if e \<le> 1075 then m div 2 ^ (1075 - e) else m * 2 ^ (e - 1075));
               v = (if bit d 63 then - mag else mag)
           in if - 2147483648 \<le> v \<and> v \<le> 2147483647 then Some v else None)"

fun ilog2 :: "nat \<Rightarrow> nat" where
  "ilog2 n = (if n < 2 then 0 else Suc (ilog2 (n div 2)))"

declare ilog2.simps [simp del]

definition int_to_double :: "int \<Rightarrow> double" where
  "int_to_double v =
     (if v = 0 then 0
      else
        let a = nat \<bar>v\<bar>;
            k = ilog2 a
        in (if v < 0 then 0x8000000000000000 else 0)
           OR push_bit 52 (of_nat (1023 + k))
           OR of_nat (a * 2 ^ (52 - k) - 2 ^ 52))"

definition double_key :: "double \<Rightarrow> int" where
  "double_key d = (if bit d 63 then - uint (d AND 0x7FFFFFFFFFFFFFFF) else uint (d AND 0x7FFFFFFFFFFFFFFF))"

definition double_lt :: "double \<Rightarrow> double \<Rightarrow> bool" where
  "double_lt a b \<longleftrightarrow> \<not> isnan a \<and> \<not> isnan b \<and> double_key a < double_key b"

definition double_le :: "double \<Rightarrow> double \<Rightarrow> bool" where
  "double_le a b \<longleftrightarrow> \<not> isnan a \<and> \<not> isnan b \<and> double_key a \<le> double_key b"

definition double_of_bool :: "bool \<Rightarrow> double" where
  "double_of_bool b = (if b then 0x3FF0000000000000 else 0)"

text \<open>The integer operators of C: \<^verbatim>\<open>%\<close> takes the sign of the dividend.\<close>

definition cast_int :: "double \<Rightarrow> error + int" where
  "cast_int d =
     (case double_to_int d of
        None \<Rightarrow> Inl (Undefined ''number outside the range of int'')
      | Some i \<Rightarrow> Inr i)"

definition int_mod :: "int \<Rightarrow> int \<Rightarrow> error + int" where
  "int_mod a b =
     (if b = 0 \<or> (a = - 2147483648 \<and> b = - 1) then Inl (Undefined ''integer division'')
      else Inr (sgn a * (\<bar>a\<bar> mod \<bar>b\<bar>)))"

definition int_or :: "int \<Rightarrow> int \<Rightarrow> error + int" where
  "int_or a b = Inr (a OR b)"

definition int_and :: "int \<Rightarrow> int \<Rightarrow> error + int" where
  "int_and a b = Inr (a AND b)"

text \<open>
  What the machine takes from its host: the rounding arithmetic of the floating-point
  unit, and the array \<^verbatim>\<open>ForeignFunctions\<close> of callbacks, which are host code acting on
  the machine. \<^verbatim>\<open>OP_CALLF\<close> calls the entry at its operand without looking at
  \<^verbatim>\<open>ForeignAmount\<close>; an entry that holds no callback is a null pointer, whose call is
  undefined, and the host gives that outcome.
\<close>

record host =
  fadd :: "double \<Rightarrow> double \<Rightarrow> double"
  fsub :: "double \<Rightarrow> double \<Rightarrow> double"
  fmul :: "double \<Rightarrow> double \<Rightarrow> double"
  fdiv :: "double \<Rightarrow> double \<Rightarrow> double"
  ForeignFunctions :: "nat \<Rightarrow> machine \<Rightarrow> error + machine"

section \<open>The virtual machine\<close>

datatype opcode =
    OP_PUSH | OP_POP
  | OP_ADD | OP_SUB | OP_MUL | OP_DIV | OP_MOD | OP_OR | OP_AND
  | OP_LT | OP_LTE | OP_GT | OP_GTE | OP_EQU | OP_NEQU
  | OP_PRINT
  | OP_SET | OP_GET
  | OP_READ
  | OP_GOTO | OP_GOTOZ | OP_GOTONZ
  | OP_CALL | OP_RETURN | OP_RETURN_VALUE
  | OP_CALLF
  | OP_GETLOCAL | OP_SETLOCAL
  | OP_MAKE_ARRAY | OP_SETINDEX | OP_GETINDEX
  | OP_HALT

definition opcodes :: "opcode list" where
  "opcodes =
     [OP_PUSH, OP_POP,
      OP_ADD, OP_SUB, OP_MUL, OP_DIV, OP_MOD, OP_OR, OP_AND,
      OP_LT, OP_LTE, OP_GT, OP_GTE, OP_EQU, OP_NEQU,
      OP_PRINT,
      OP_SET, OP_GET,
      OP_READ,
      OP_GOTO, OP_GOTOZ, OP_GOTONZ,
      OP_CALL, OP_RETURN, OP_RETURN_VALUE,
      OP_CALLF,
      OP_GETLOCAL, OP_SETLOCAL,
      OP_MAKE_ARRAY, OP_SETINDEX, OP_GETINDEX,
      OP_HALT]"

definition opcode_of :: "8 word \<Rightarrow> opcode option" where
  "opcode_of w = (if unat w < length opcodes then Some (opcodes ! unat w) else None)"

fun code_of :: "opcode \<Rightarrow> 8 word" where
  "code_of OP_PUSH = 0" | "code_of OP_POP = 1"
| "code_of OP_ADD = 2" | "code_of OP_SUB = 3" | "code_of OP_MUL = 4" | "code_of OP_DIV = 5"
| "code_of OP_MOD = 6" | "code_of OP_OR = 7" | "code_of OP_AND = 8"
| "code_of OP_LT = 9" | "code_of OP_LTE = 10" | "code_of OP_GT = 11" | "code_of OP_GTE = 12"
| "code_of OP_EQU = 13" | "code_of OP_NEQU = 14"
| "code_of OP_PRINT = 15"
| "code_of OP_SET = 16" | "code_of OP_GET = 17"
| "code_of OP_READ = 18"
| "code_of OP_GOTO = 19" | "code_of OP_GOTOZ = 20" | "code_of OP_GOTONZ = 21"
| "code_of OP_CALL = 22" | "code_of OP_RETURN = 23" | "code_of OP_RETURN_VALUE = 24"
| "code_of OP_CALLF = 25"
| "code_of OP_GETLOCAL = 26" | "code_of OP_SETLOCAL = 27"
| "code_of OP_MAKE_ARRAY = 28" | "code_of OP_SETINDEX = 29" | "code_of OP_GETINDEX = 30"
| "code_of OP_HALT = 31"

text \<open>
  An immediate operand is four bytes of the program in the byte order of the host,
  taken here as little-endian, read as a two's complement \<^verbatim>\<open>int\<close>.
\<close>

definition int_of_bytes :: "8 word \<Rightarrow> 8 word \<Rightarrow> 8 word \<Rightarrow> 8 word \<Rightarrow> int" where
  "int_of_bytes b0 b1 b2 b3 =
     (let u = uint b0 + 256 * uint b1 + 65536 * uint b2 + 16777216 * uint b3
      in if u < 2147483648 then u else u - 4294967296)"

definition ReadInteger :: "machine \<Rightarrow> error + int \<times> machine" where
  "ReadInteger s =
     (let pc = ProgramCounter s in
      if pc < 0 \<or> MAX_PROG_LEN \<le> pc + 3 then Inl (Undefined ''Program read outside its array'')
      else Inr (int_of_bytes (Program s (nat pc)) (Program s (nat (pc + 1)))
                             (Program s (nat (pc + 2))) (Program s (nat (pc + 3))),
                s\<lparr>ProgramCounter := pc + 4\<rparr>))"

definition DoPush :: "ptr \<Rightarrow> machine \<Rightarrow> error + machine" where
  "DoPush v s =
     (if MAX_STACK \<le> StackSize s then Inl (Fatal StackOverflow)
      else if StackSize s < 0 then Inl (Undefined ''Stack written outside its array'')
      else Inr (s\<lparr>Stack := (Stack s)(nat (StackSize s) := v), StackSize := StackSize s + 1\<rparr>))"

definition DoPop :: "machine \<Rightarrow> error + ptr \<times> machine" where
  "DoPop s =
     (if StackSize s \<le> 0 then Inl (Fatal StackUnderflow)
      else if MAX_STACK < StackSize s then Inl (Undefined ''Stack read outside its array'')
      else Inr (Stack s (nat (StackSize s - 1)), s\<lparr>StackSize := StackSize s - 1\<rparr>))"

text \<open>
  \<^verbatim>\<open>DoRead\<close> copies the characters of the standard input up to the next newline into a
  buffer that it reallocates to two bytes, once: a line of two characters or more, and
  an input that ends before a newline, are written past the end of the buffer.
\<close>

definition DoRead :: "nat \<Rightarrow> machine \<Rightarrow> error + machine" where
  "DoRead n s =
     (let line = takeWhile (\<lambda>c. c \<noteq> CHR 0x0A) (Stdin s) in
      if length line = length (Stdin s) \<or> 2 \<le> length line
      then Inl (Undefined ''read buffer written outside its allocation'')
      else
        thenE (NewObject n OBJ_STRING (s\<lparr>Stdin := drop (Suc (length line)) (Stdin s)\<rparr>)) (\<lambda>(obj, s1).
          DoPush (Some obj) (set_member obj (String line) s1)))"

definition IndirWrite :: "int \<Rightarrow> machine \<Rightarrow> error + machine" where
  "IndirWrite v s =
     (if IndirStackSize s < 0 \<or> MAX_INDIR \<le> IndirStackSize s
      then Inl (Undefined ''IndirStack written outside its array'')
      else Inr (s\<lparr>IndirStack := (IndirStack s)(nat (IndirStackSize s) := v),
                  IndirStackSize := IndirStackSize s + 1\<rparr>))"

definition IndirRead :: "machine \<Rightarrow> error + int \<times> machine" where
  "IndirRead s =
     (if IndirStackSize s - 1 < 0 \<or> MAX_INDIR \<le> IndirStackSize s - 1
      then Inl (Undefined ''IndirStack read outside its array'')
      else Inr (IndirStack s (nat (IndirStackSize s - 1)),
                s\<lparr>IndirStackSize := IndirStackSize s - 1\<rparr>))"

definition DoPushIndir :: "int \<Rightarrow> machine \<Rightarrow> error + machine" where
  "DoPushIndir nargs s =
     thenE (IndirWrite nargs s) (\<lambda>s1.
     thenE (IndirWrite (FramePointer s1) s1) (\<lambda>s2.
     thenE (IndirWrite (ProgramCounter s2) s2) (\<lambda>s3.
     Inr (s3\<lparr>FramePointer := StackSize s3\<rparr>))))"

definition DoPopIndir :: "machine \<Rightarrow> error + machine" where
  "DoPopIndir s =
     thenE (IndirRead (s\<lparr>StackSize := FramePointer s\<rparr>)) (\<lambda>(prevPc, s1).
     thenE (IndirRead s1) (\<lambda>(prevFp, s2).
     thenE (IndirRead s2) (\<lambda>(nargs, s3).
       if \<not> int_range (StackSize s3 - nargs) then Inl (Undefined ''signed overflow'')
       else Inr (s3\<lparr>StackSize := StackSize s3 - nargs,
                   FramePointer := prevFp,
                   ProgramCounter := prevPc\<rparr>))))"

definition advance :: "machine \<Rightarrow> machine" where
  "advance s = s\<lparr>ProgramCounter := ProgramCounter s + 1\<rparr>"

text \<open>
  The macros \<^verbatim>\<open>BIN_OP\<close> and \<^verbatim>\<open>BIN_OP_INT\<close>: pop the second operand, pop the first,
  allocate the result, then read the numbers of the two operands and store the result.
\<close>

definition BIN_OP :: "(double \<Rightarrow> double \<Rightarrow> double) \<Rightarrow> nat \<Rightarrow> machine \<Rightarrow> error + machine" where
  "BIN_OP f n s =
     thenE (DoPop s) (\<lambda>(val2, s1).
     thenE (DoPop s1) (\<lambda>(val1, s2).
     thenE (NewObject n OBJ_NUM s2) (\<lambda>(result, s3).
     thenE (number_of s3 val1) (\<lambda>n1.
     thenE (number_of s3 val2) (\<lambda>n2.
     thenE (DoPush (Some result) (set_member result (Number (f n1 n2)) s3)) (\<lambda>s4.
     Inr (advance s4)))))))"

definition BIN_OP_INT :: "(int \<Rightarrow> int \<Rightarrow> error + int) \<Rightarrow> nat \<Rightarrow> machine \<Rightarrow> error + machine" where
  "BIN_OP_INT f n s =
     thenE (DoPop s) (\<lambda>(val2, s1).
     thenE (DoPop s1) (\<lambda>(val1, s2).
     thenE (NewObject n OBJ_NUM s2) (\<lambda>(result, s3).
     thenE (number_of s3 val1) (\<lambda>n1.
     thenE (number_of s3 val2) (\<lambda>n2.
     thenE (cast_int n1) (\<lambda>i1.
     thenE (cast_int n2) (\<lambda>i2.
     thenE (f i1 i2) (\<lambda>r.
     thenE (DoPush (Some result) (set_member result (Number (int_to_double r)) s3)) (\<lambda>s4.
     Inr (advance s4))))))))))"

definition PopInt :: "machine \<Rightarrow> error + int \<times> machine" where
  "PopInt s =
     thenE (DoPop s) (\<lambda>(v, s1).
     thenE (number_of s1 v) (\<lambda>d.
     thenE (cast_int d) (\<lambda>i.
     Inr (i, s1))))"

text \<open>
  The two tests of \<^verbatim>\<open>OP_PRINT\<close>: a number is printed with \<^verbatim>\<open>%g\<close>, a string with
  \<^verbatim>\<open>%s\<close>, and an object of another type passes both tests untouched.
\<close>

definition PrintObject :: "Object \<Rightarrow> machine \<Rightarrow> error + machine" where
  "PrintObject ob s =
     (case member ob of
        Number d \<Rightarrow> Inr (s\<lparr>Stdout := Stdout s @ [PrintNumber d]\<rparr>)
      | String t \<Rightarrow> Inr (s\<lparr>Stdout := Stdout s @ [PrintString t]\<rparr>)
      | Unwritten ty \<Rightarrow>
          if ty = OBJ_NUM \<or> ty = OBJ_STRING then Inl (Undefined ''unwritten union member read'')
          else Inr s
      | _ \<Rightarrow> Inr s)"

text \<open>The cases of the \<^verbatim>\<open>switch\<close> of \<^verbatim>\<open>ExecuteCycle\<close>, in the order of the source.\<close>

fun ExecuteCase :: "opcode \<Rightarrow> host \<Rightarrow> nat \<Rightarrow> machine \<Rightarrow> error + machine" where
  "ExecuteCase OP_PUSH H n s =
     thenE (ReadInteger (advance s)) (\<lambda>(cidx, s1).
       if cidx < 0 \<or> ConstantAmount s1 \<le> cidx
       then Inl (Undefined ''Constants read outside the pool'')
       else
         thenE (case Constants s1 (nat cidx) of
                  CST_NUM v \<Rightarrow>
                    thenE (NewObject n OBJ_NUM s1) (\<lambda>(obj, s2). Inr (obj, set_member obj (Number v) s2))
                | CST_STR v \<Rightarrow>
                    thenE (NewObject n OBJ_STRING s1) (\<lambda>(obj, s2). Inr (obj, set_member obj (String v) s2)))
           (\<lambda>(obj, s3). DoPush (Some obj) s3))"
| "ExecuteCase OP_POP H n s = thenE (DoPop s) (\<lambda>(v, s1). Inr (advance s1))"
| "ExecuteCase OP_ADD H n s = BIN_OP (fadd H) n s"
| "ExecuteCase OP_SUB H n s = BIN_OP (fsub H) n s"
| "ExecuteCase OP_MUL H n s = BIN_OP (fmul H) n s"
| "ExecuteCase OP_DIV H n s = BIN_OP (fdiv H) n s"
| "ExecuteCase OP_MOD H n s = BIN_OP_INT int_mod n s"
| "ExecuteCase OP_OR H n s = BIN_OP_INT int_or n s"
| "ExecuteCase OP_AND H n s = BIN_OP_INT int_and n s"
| "ExecuteCase OP_LT H n s = BIN_OP (\<lambda>a b. double_of_bool (double_lt a b)) n s"
| "ExecuteCase OP_LTE H n s = BIN_OP (\<lambda>a b. double_of_bool (double_le a b)) n s"
| "ExecuteCase OP_GT H n s = BIN_OP (\<lambda>a b. double_of_bool (double_lt b a)) n s"
| "ExecuteCase OP_GTE H n s = BIN_OP (\<lambda>a b. double_of_bool (double_le b a)) n s"
| "ExecuteCase OP_EQU H n s = BIN_OP (\<lambda>a b. double_of_bool (double_eq a b)) n s"
| "ExecuteCase OP_NEQU H n s = BIN_OP (\<lambda>a b. double_of_bool (\<not> double_eq a b)) n s"
| "ExecuteCase OP_PRINT H n s =
     thenE (DoPop s) (\<lambda>(obj, s1).
     thenE (deref s1 obj) (\<lambda>ob.
     thenE (PrintObject ob s1) (\<lambda>s2.
     Inr (advance s2))))"
| "ExecuteCase OP_SET H n s =
     thenE (ReadInteger (advance s)) (\<lambda>(varIdx, s1).
       if \<not> int_range (varIdx + 1) then Inl (Undefined ''signed overflow'')
       else
       let s2 = (if RuntimeVariableAmount s1 < varIdx + 1
                 then s1\<lparr>RuntimeVariableAmount := varIdx + 1\<rparr> else s1)
       in thenE (DoPop s2) (\<lambda>(v, s3).
            if varIdx < 0 \<or> MAX_VARS \<le> varIdx
            then Inl (Undefined ''Variables written outside its array'')
            else Inr (s3\<lparr>Variables :=
                          (Variables s3)(nat varIdx := (Variables s3 (nat varIdx))\<lparr>object := v\<rparr>)\<rparr>)))"
| "ExecuteCase OP_GET H n s =
     thenE (ReadInteger (advance s)) (\<lambda>(varIdx, s1).
       if varIdx < 0 \<or> MAX_VARS \<le> varIdx
       then Inl (Undefined ''Variables read outside its array'')
       else DoPush (object (Variables s1 (nat varIdx))) s1)"
| "ExecuteCase OP_READ H n s = thenE (DoRead n s) (\<lambda>s1. Inr (advance s1))"
| "ExecuteCase OP_GOTO H n s =
     thenE (ReadInteger (advance s)) (\<lambda>(newPc, s1). Inr (s1\<lparr>ProgramCounter := newPc\<rparr>))"
| "ExecuteCase OP_GOTOZ H n s =
     thenE (ReadInteger (advance s)) (\<lambda>(newPc, s1).
     thenE (DoPop s1) (\<lambda>(v, s2).
     thenE (number_of s2 v) (\<lambda>d.
       Inr (if double_eq d 0 then s2\<lparr>ProgramCounter := newPc\<rparr> else s2))))"
| "ExecuteCase OP_GOTONZ H n s =
     thenE (ReadInteger (advance s)) (\<lambda>(newPc, s1).
     thenE (DoPop s1) (\<lambda>(v, s2).
     thenE (number_of s2 v) (\<lambda>d.
       Inr (if \<not> double_eq d 0 then s2\<lparr>ProgramCounter := newPc\<rparr> else s2))))"
| "ExecuteCase OP_CALL H n s =
     thenE (ReadInteger (advance s)) (\<lambda>(nargs, s1).
     thenE (ReadInteger s1) (\<lambda>(pcIdx, s2).
     thenE (DoPushIndir nargs s2) (\<lambda>s3.
       if pcIdx < 0 \<or> MAX_FUNCS \<le> pcIdx
       then Inl (Undefined ''FunctionPcs read outside its array'')
       else Inr (s3\<lparr>ProgramCounter := FunctionPcs s3 (nat pcIdx)\<rparr>))))"
| "ExecuteCase OP_RETURN H n s = DoPopIndir s"
| "ExecuteCase OP_RETURN_VALUE H n s =
     thenE (DoPop s) (\<lambda>(retVal, s1).
     thenE (DoPopIndir s1) (\<lambda>s2.
     DoPush retVal s2))"
| "ExecuteCase OP_CALLF H n s =
     thenE (ReadInteger (advance s)) (\<lambda>(fIdx, s1).
       if fIdx < 0 \<or> MAX_FUNCS \<le> fIdx
       then Inl (Undefined ''ForeignFunctions read outside its array'')
       else ForeignFunctions H (nat fIdx) s1)"
| "ExecuteCase OP_GETLOCAL H n s =
     thenE (ReadInteger (advance s)) (\<lambda>(localIdx, s1).
       if FramePointer s1 + localIdx < 0 \<or> MAX_STACK \<le> FramePointer s1 + localIdx
       then Inl (Undefined ''Stack read outside its array'')
       else DoPush (Stack s1 (nat (FramePointer s1 + localIdx))) s1)"
| "ExecuteCase OP_SETLOCAL H n s =
     thenE (ReadInteger (advance s)) (\<lambda>(localIdx, s1).
     thenE (DoPop s1) (\<lambda>(v, s2).
       if FramePointer s2 + localIdx < 0 \<or> MAX_STACK \<le> FramePointer s2 + localIdx
       then Inl (Undefined ''Stack written outside its array'')
       else Inr (s2\<lparr>Stack := (Stack s2)(nat (FramePointer s2 + localIdx) := v)\<rparr>)))"
| "ExecuteCase OP_MAKE_ARRAY H n s =
     thenE (PopInt (advance s)) (\<lambda>(len, s1).
     thenE (NewArray n len s1) (\<lambda>(array, s2).
     DoPush (Some array) s2))"
| "ExecuteCase OP_SETINDEX H n s =
     thenE (DoPop (advance s)) (\<lambda>(v, s1).
     thenE (PopInt s1) (\<lambda>(idx, s2).
     thenE (DoPop s2) (\<lambda>(obj, s3).
     thenE (array_of s3 obj) (\<lambda>vs.
       if 0 \<le> idx \<and> idx < int (length vs)
       then Inr (set_member (the obj) (Array (vs[nat idx := v])) s3)
       else Inl (Fatal (ArrayIndexOutOfBounds idx))))))"
| "ExecuteCase OP_GETINDEX H n s =
     thenE (PopInt (advance s)) (\<lambda>(idx, s1).
     thenE (DoPop s1) (\<lambda>(obj, s2).
     thenE (array_of s2 obj) (\<lambda>vs.
       if 0 \<le> idx \<and> idx < int (length vs)
       then (case vs ! nat idx of
               Some a \<Rightarrow> DoPush (Some a) s2
             | None \<Rightarrow> thenE (NewNumber n 0 s2) (\<lambda>(zero, s3). DoPush (Some zero) s3))
       else Inl (Fatal (ArrayIndexOutOfBounds idx)))))"
| "ExecuteCase OP_HALT H n s = Inr (s\<lparr>ProgramCounter := - 1\<rparr>)"

text \<open>A byte that is no opcode matches no case: the machine is left as it is.\<close>

definition ExecuteCycle :: "host \<Rightarrow> nat \<Rightarrow> machine \<Rightarrow> error + machine" where
  "ExecuteCycle H n s =
     (if ProgramCounter s < 0 \<or> MAX_PROG_LEN \<le> ProgramCounter s
      then Inl (Undefined ''Program read outside its array'')
      else
        (case opcode_of (Program s (nat (ProgramCounter s))) of
           None \<Rightarrow> Inr s
         | Some op \<Rightarrow> ExecuteCase op H n s))"

definition running :: "machine \<Rightarrow> bool" where
  "running s \<longleftrightarrow> ProgramCounter s < ProgramLength s \<and> 0 \<le> ProgramCounter s"

text \<open>
  The loop \<^verbatim>\<open>while(ProgramCounter < ProgramLength && ProgramCounter >= 0) ExecuteCycle();\<close>
  of \<^verbatim>\<open>RunMachine\<close> and \<^verbatim>\<open>CallProc\<close> need not end. \<open>Cycles\<close> runs it for at most \<open>k\<close>
  iterations; \<open>Steps\<close> is the machine after exactly \<open>k\<close> calls of \<^verbatim>\<open>ExecuteCycle\<close>.
\<close>

fun Cycles :: "host \<Rightarrow> nat \<Rightarrow> nat \<Rightarrow> machine \<Rightarrow> error + machine" where
  "Cycles H n 0 s = (if running s then Inl OutOfFuel else Inr s)"
| "Cycles H n (Suc k) s =
     (if running s then thenE (ExecuteCycle H n s) (Cycles H n k) else Inr s)"

fun Steps :: "host \<Rightarrow> nat \<Rightarrow> nat \<Rightarrow> machine \<Rightarrow> error + machine" where
  "Steps H n 0 s = Inr s"
| "Steps H n (Suc k) s = thenE (ExecuteCycle H n s) (Steps H n k)"

definition RunMachine :: "host \<Rightarrow> nat \<Rightarrow> nat \<Rightarrow> machine \<Rightarrow> error + machine" where
  "RunMachine H n k s = Cycles H n k (s\<lparr>ProgramCounter := 0\<rparr>)"

definition CallProc :: "host \<Rightarrow> nat \<Rightarrow> nat \<Rightarrow> int \<Rightarrow> int \<Rightarrow> machine \<Rightarrow> error + machine" where
  "CallProc H n k proc_id nargs s =
     (if proc_id < 0 then Inr s
      else
        thenE (DoPushIndir nargs s) (\<lambda>s1.
          if MAX_FUNCS \<le> proc_id then Inl (Undefined ''FunctionPcs read outside its array'')
          else Cycles H n k (s1\<lparr>ProgramCounter := FunctionPcs s1 (nat proc_id)\<rparr>)))"

text \<open>
  \<^verbatim>\<open>ResetMachine\<close> clears the counters and the table of variables; the other arrays are
  globals of the process, all zero when it starts and left as they are afterwards.
  \<open>zero_machine\<close> is the machine of a process that has just started.
\<close>

definition ResetMachine :: "machine \<Rightarrow> machine" where
  "ResetMachine s =
     s\<lparr>ProgramLength := 0,
       ProgramCounter := - 1,
       ConstantAmount := 0,
       StackSize := 0,
       FramePointer := 0,
       VariableAmount := 0,
       FunctionAmount := 0,
       IndirStackSize := 0,
       GCHead := [],
       NumObjects := 0,
       ForeignAmount := 0,
       RuntimeVariableAmount := 0,
       CurrScope := 0,
       LocalDeclarations := [],
       NumArgsDeclared := 0,
       Variables := (\<lambda>i. \<lparr>name = [], initialized = False, object = None, members = []\<rparr>)\<rparr>"

definition InitInterpreter :: "machine \<Rightarrow> machine" where
  "InitInterpreter s = (ResetMachine s)\<lparr>NumObjects := 0, MaxNumObjects := 2\<rparr>"

definition zero_machine :: machine where
  "zero_machine =
     \<lparr>Program = (\<lambda>i. 0),
      ProgramLength = 0,
      ProgramCounter = 0,
      FramePointer = 0,
      GCHead = [],
      NumObjects = 0,
      MaxNumObjects = 0,
      NextAddress = 1,
      Stack = (\<lambda>i. None),
      StackSize = 0,
      IndirStack = (\<lambda>i. 0),
      IndirStackSize = 0,
      Variables = (\<lambda>i. \<lparr>name = [], initialized = False, object = None, members = []\<rparr>),
      VariableAmount = 0,
      RuntimeVariableAmount = 0,
      FunctionNames = (\<lambda>i. []),
      FunctionPcs = (\<lambda>i. 0),
      FunctionAmount = 0,
      ForeignFunctionNames = (\<lambda>i. []),
      ForeignAmount = 0,
      CurrScope = 0,
      CurrNumLocals = 0,
      NumArgsDeclared = 0,
      LocalDeclarations = [],
      Constants = (\<lambda>i. CST_NUM 0),
      ConstantAmount = 0,
      CurTok = 0,
      TokenBuffer = [],
      TokenNumber = 0,
      Source = [],
      Stdin = [],
      Stdout = []\<rparr>"

section \<open>Notions used by the properties\<close>

text \<open>
  \<open>heap_only s s'\<close>: the machine \<open>s'\<close> differs from \<open>s\<close> at most in the heap, its two
  counters and the standard output. \<open>frames\<close> is what a call saves and
  a return restores from: the frame pointer and the indirection stack.
\<close>

definition heap_only :: "machine \<Rightarrow> machine \<Rightarrow> bool" where
  "heap_only s s' \<longleftrightarrow>
     s' = s\<lparr>GCHead := GCHead s', NumObjects := NumObjects s', MaxNumObjects := MaxNumObjects s',
            Stdout := Stdout s'\<rparr>"

definition frames :: "machine \<Rightarrow> int \<times> (nat \<Rightarrow> int) \<times> int" where
  "frames s = (FramePointer s, IndirStack s, IndirStackSize s)"

text \<open>A host whose foreign functions leave the frame pointer and the indirection stack alone.\<close>

definition frame_safe :: "host \<Rightarrow> bool" where
  "frame_safe H \<longleftrightarrow> (\<forall>i s s'. ForeignFunctions H i s = Inr s' \<longrightarrow> frames s' = frames s)"

fun frame_op :: "opcode \<Rightarrow> bool" where
  "frame_op OP_CALL = True"
| "frame_op OP_RETURN = True"
| "frame_op OP_RETURN_VALUE = True"
| "frame_op _ = False"

text \<open>
  \<open>CallBody H n lvl k t\<close> is the machine \<open>k\<close> cycles of the run loop after \<open>t\<close>, provided
  that the indirection stack holds at least \<open>lvl\<close> entries in \<open>t\<close>, in the result and
  in every machine between them: the cycles belong to a call whose frame ends at
  \<open>lvl\<close>.
\<close>

fun CallBody :: "host \<Rightarrow> nat \<Rightarrow> int \<Rightarrow> nat \<Rightarrow> machine \<Rightarrow> machine option" where
  "CallBody H n lvl 0 t = (if lvl \<le> IndirStackSize t then Some t else None)"
| "CallBody H n lvl (Suc k) t =
     (if lvl \<le> IndirStackSize t \<and> running t
      then (case ExecuteCycle H n t of Inl e \<Rightarrow> None | Inr t' \<Rightarrow> CallBody H n lvl k t')
      else None)"

text \<open>The first operand of the instruction at the program counter.\<close>

definition operand1 :: "machine \<Rightarrow> int" where
  "operand1 s =
     int_of_bytes (Program s (nat (ProgramCounter s + 1))) (Program s (nat (ProgramCounter s + 2)))
                  (Program s (nat (ProgramCounter s + 3))) (Program s (nat (ProgramCounter s + 4)))"

definition opcode_at :: "machine \<Rightarrow> opcode option" where
  "opcode_at s = opcode_of (Program s (nat (ProgramCounter s)))"

text \<open>A host for the examples: its arithmetic is not used, and it binds no foreign function.\<close>

definition plain_host :: host where
  "plain_host =
     \<lparr>fadd = (\<lambda>a b. 0), fsub = (\<lambda>a b. 0), fmul = (\<lambda>a b. 0), fdiv = (\<lambda>a b. 0),
      ForeignFunctions = (\<lambda>i s. Inr s)\<rparr>"

text \<open>
  The invariant of the machines inside a call whose frame starts at \<open>base\<close> of the
  indirection stack: the three saved integers are in place, and the frame pointer of
  the callee is in the register while no nested call is open, and else in the frame
  the first nested call saved.
\<close>

definition in_call :: "int \<Rightarrow> int \<Rightarrow> int \<Rightarrow> int \<Rightarrow> int \<Rightarrow> machine \<Rightarrow> bool" where
  "in_call base nargs fp ret sp t \<longleftrightarrow>
     0 \<le> base \<and> base + 3 \<le> IndirStackSize t \<and> (IndirStackSize t - base) mod 3 = 0
     \<and> IndirStack t (nat base) = nargs
     \<and> IndirStack t (nat (base + 1)) = fp
     \<and> IndirStack t (nat (base + 2)) = ret
     \<and> (if IndirStackSize t = base + 3 then FramePointer t = sp
         else IndirStack t (nat (base + 4)) = sp)"

text \<open>A program loaded at the start of the array \<^verbatim>\<open>Program\<close>, which is zero elsewhere.\<close>

definition load :: "8 word list \<Rightarrow> nat \<Rightarrow> 8 word" where
  "load bytes i = (if i < length bytes then bytes ! i else 0)"

text \<open>
  An example: \<^verbatim>\<open>CALL 1, 0\<close> at 0, \<^verbatim>\<open>HALT\<close> at 9, and procedure 0 at 10 with the body
  \<^verbatim>\<open>GETLOCAL -1; RETURN_VALUE\<close>; one number is on the stack as the argument.
\<close>

definition call_example :: machine where
  "call_example =
     (InitInterpreter zero_machine)
       \<lparr>Program := load [22, 1, 0, 0, 0, 0, 0, 0, 0, 31, 26, 255, 255, 255, 255, 24],
        ProgramLength := 16,
        ProgramCounter := 0,
        FunctionPcs := (\<lambda>i. 0)(0 := 10),
        GCHead := [(1, \<lparr>marked = False, member = Number 0x4014000000000000\<rparr>)],
        NumObjects := 1,
        NextAddress := 2,
        Stack := (\<lambda>i. None)(0 := Some 1),
        StackSize := 1\<rparr>"

text \<open>
  \<open>stack_top s k\<close> is the entry \<open>k\<close> places below the top of the operand stack, and
  \<open>int_at s p\<close> the \<^verbatim>\<open>int\<close> that the cast \<^verbatim>\<open>(int)p->number\<close> gives.
\<close>

definition stack_top :: "machine \<Rightarrow> int \<Rightarrow> ptr" where
  "stack_top s k = Stack s (nat (StackSize s - 1 - k))"

definition int_at :: "machine \<Rightarrow> ptr \<Rightarrow> error + int" where
  "int_at s p = thenE (number_of s p) cast_int"

text \<open>Every object of the heap has an address the allocator has already passed.\<close>

definition heap_below :: "machine \<Rightarrow> bool" where
  "heap_below s \<longleftrightarrow> (\<forall>a \<in> fst ` set (GCHead s). a < NextAddress s)"

text \<open>
  Examples for the index instructions: an array of two empty slots at address 1, a number
  \<open>d\<close> at address 2 and the number 5 at address 3, pushed in this order; \<open>depth\<close>
  entries of the stack are in use, and the program is the single opcode \<open>op\<close>.
\<close>

definition index_example :: "8 word \<Rightarrow> double \<Rightarrow> int \<Rightarrow> machine" where
  "index_example op d depth =
     (InitInterpreter zero_machine)
       \<lparr>Program := load [op],
        ProgramLength := 1,
        ProgramCounter := 0,
        GCHead := [(3, \<lparr>marked = False, member = Number 0x4014000000000000\<rparr>),
                   (2, \<lparr>marked = False, member = Number d\<rparr>),
                   (1, \<lparr>marked = False, member = Array [None, None]\<rparr>)],
        NumObjects := 3,
        MaxNumObjects := 4,
        NextAddress := 4,
        Stack := (\<lambda>i. None)(0 := Some 1, 1 := Some 2, 2 := Some 3),
        StackSize := depth\<rparr>"

text \<open>
  The program of the source text \<^verbatim>\<open>write 1 + 2 end\<close>: two pushes of constants, \<^verbatim>\<open>ADD\<close>,
  \<^verbatim>\<open>PRINT\<close>, \<^verbatim>\<open>HALT\<close>; the constants are 1 and 2.
\<close>

definition sum_example :: machine where
  "sum_example =
     (InitInterpreter zero_machine)
       \<lparr>Program := load [0, 0, 0, 0, 0,  0, 1, 0, 0, 0,  2,  15,  31],
        ProgramLength := 13,
        Constants := (\<lambda>i. CST_NUM 0)(0 := CST_NUM 0x3FF0000000000000, 1 := CST_NUM 0x4000000000000000),
        ConstantAmount := 2\<rparr>"

text \<open>
  The program of the source text \<^verbatim>\<open>a = [1]  a[0] = a  b = 1\<close>: an array of length 1 is
  made and stored in the global 0, its slot 0 is set to the array itself, and a
  number is pushed and stored in the global 1. The constants are 1 and 0.
\<close>

definition cycle_example :: machine where
  "cycle_example =
     (InitInterpreter zero_machine)
       \<lparr>Program := load [0, 0, 0, 0, 0,  28,  16, 0, 0, 0, 0,
                         17, 0, 0, 0, 0,  0, 1, 0, 0, 0,  17, 0, 0, 0, 0,  29,
                         0, 0, 0, 0, 0,  16, 1, 0, 0, 0,  31],
        ProgramLength := 38,
        Constants := (\<lambda>i. CST_NUM 0)(0 := CST_NUM 0x3FF0000000000000, 1 := CST_NUM 0),
        ConstantAmount := 2\<rparr>"

text \<open>
  The program of the source text \<^verbatim>\<open>i = 1  a = [2]  a[0] = a  j = 5  write a[i] end\<close>:
  the array of length 2 holds itself in slot 0 and \<^verbatim>\<open>NULL\<close> in slot 1, which is read.
  The constants are 1, 2, 0 and 5.
\<close>

definition index_cycle_example :: machine where
  "index_cycle_example =
     (InitInterpreter zero_machine)
       \<lparr>Program := load [0, 0, 0, 0, 0,  16, 0, 0, 0, 0,
                         0, 1, 0, 0, 0,  28,  16, 1, 0, 0, 0,
                         17, 1, 0, 0, 0,  0, 2, 0, 0, 0,  17, 1, 0, 0, 0,  29,
                         0, 3, 0, 0, 0,  16, 2, 0, 0, 0,
                         17, 1, 0, 0, 0,  17, 0, 0, 0, 0,  30,  15,  31],
        ProgramLength := 60,
        Constants := (\<lambda>i. CST_NUM 0)
          (0 := CST_NUM 0x3FF0000000000000, 1 := CST_NUM 0x4000000000000000,
           2 := CST_NUM 0, 3 := CST_NUM 0x4014000000000000),
        ConstantAmount := 4\<rparr>"

text \<open>An unmarked array whose first slot points to the array itself.\<close>

definition self_array :: "machine \<Rightarrow> nat \<Rightarrow> bool" where
  "self_array s a \<longleftrightarrow>
     (case map_of (GCHead s) a of
        Some ob \<Rightarrow> \<not> marked ob \<and> (case member ob of Array vs \<Rightarrow> vs \<noteq> [] \<and> hd vs = Some a | _ \<Rightarrow> False)
      | None \<Rightarrow> False)"

text \<open>
  The program of the source text \<^verbatim>\<open>proc f() f() end f()\<close>: \<^verbatim>\<open>GOTO 15\<close> over the body, the
  body \<^verbatim>\<open>CALL 0, 0\<close> and \<^verbatim>\<open>RETURN\<close> at 5, then \<^verbatim>\<open>CALL 0, 0\<close> at 15 and \<^verbatim>\<open>HALT\<close>.
\<close>

definition recursion_example :: machine where
  "recursion_example =
     (InitInterpreter zero_machine)
       \<lparr>Program := load [19, 15, 0, 0, 0,  22, 0, 0, 0, 0, 0, 0, 0, 0,  23,
                         22, 0, 0, 0, 0, 0, 0, 0, 0,  31],
        ProgramLength := 25,
        FunctionPcs := (\<lambda>i. 0)(0 := 5),
        FunctionAmount := 1\<rparr>"

text \<open>The machine of that program about to make the call in the body, \<open>k\<close> calls deep.\<close>

definition recursing :: "nat \<Rightarrow> machine \<Rightarrow> bool" where
  "recursing k s \<longleftrightarrow>
     Program s = Program recursion_example \<and> ProgramLength s = 25
     \<and> FunctionPcs s 0 = 5 \<and> ProgramCounter s = 5 \<and> IndirStackSize s = 3 * int k"

text \<open>Two machines with the same objects in the list, and the same count of them.\<close>

definition same_objects :: "machine \<Rightarrow> machine \<Rightarrow> bool" where
  "same_objects s s' \<longleftrightarrow>
     NumObjects s' = NumObjects s \<and> map fst (GCHead s') = map fst (GCHead s)"

text \<open>
  A machine with two numbers in the heap and the threshold 2; the first number is on
  the stack, the second is not reachable.
\<close>

definition full_heap_example :: machine where
  "full_heap_example =
     (InitInterpreter zero_machine)
       \<lparr>GCHead := [(2, \<lparr>marked = False, member = Number 0x4000000000000000\<rparr>),
                   (1, \<lparr>marked = False, member = Number 0x3FF0000000000000\<rparr>)],
        NumObjects := 2, NextAddress := 3,
        Stack := (\<lambda>i. None)(0 := Some 1), StackSize := 1\<rparr>"

section \<open>Properties\<close>

subsection \<open>Sequencing\<close>

lemma thenE_simps [simp]: "thenE (Inl e) f = Inl e" "thenE (Inr x) f = f x"
  by (simp_all add: thenE_def)

lemma thenE_eq_Inr: "thenE m f = Inr y \<longleftrightarrow> (\<exists>x. m = Inr x \<and> f x = Inr y)"
  by (cases m) simp_all

lemma thenE_eq_Inl: "thenE m f = Inl e \<longleftrightarrow> m = Inl e \<or> (\<exists>x. m = Inr x \<and> f x = Inl e)"
  by (cases m) simp_all

subsection \<open>The constant pool\<close>

lemma first_index_Some:
  "first_index P a n = Some i \<longleftrightarrow> int i < n \<and> P (a i) \<and> (\<forall>j<i. \<not> P (a j))"
proof
  assume "first_index P a n = Some i"
  then show "int i < n \<and> P (a i) \<and> (\<forall>j<i. \<not> P (a j))"
    unfolding first_index_def find_Some_iff by (auto simp: nth_upt)
next
  assume h: "int i < n \<and> P (a i) \<and> (\<forall>j<i. \<not> P (a j))"
  then have "i < length [0..<nat n] \<and> P (a ([0..<nat n] ! i)) \<and> i = [0..<nat n] ! i
      \<and> (\<forall>j<i. \<not> P (a ([0..<nat n] ! j)))"
    by (auto simp: nth_upt)
  then show "first_index P a n = Some i"
    unfolding first_index_def find_Some_iff by blast
qed

lemma first_index_None:
  "first_index P a n = None \<longleftrightarrow> (\<forall>j. int j < n \<longrightarrow> \<not> P (a j))"
  unfolding first_index_def find_None_iff by auto

lemma Register_eq:
  "Register r s =
     (case first_index (same_as r) (Constants s) (ConstantAmount s) of
        Some i \<Rightarrow> Inr (int i, s)
      | None \<Rightarrow> add_constant (entry_of r) s)"
  by (cases r) (simp_all add: RegisterNumber_def RegisterString_def same_as_def entry_of_def
      split: option.splits)

lemma same_as_entry: "same_as r (entry_of r) = same_constant r r"
  by (cases r) (simp_all add: same_as_def entry_of_def same_number_def same_string_def)

lemma same_as_cong: "same_constant r r' \<Longrightarrow> same_as r' c = same_as r c"
  by (cases r; cases r'; cases c)
     (auto simp: same_as_def same_number_def same_string_def double_eq_def)

lemma same_constant_refl: "same_constant r r' \<Longrightarrow> same_constant r r"
  by (cases r; cases r') (auto simp: double_eq_def)

lemma Register_found: "registered_at r k s \<Longrightarrow> Register r s = Inr (int k, s)"
proof -
  assume "registered_at r k s"
  then have "first_index (same_as r) (Constants s) (ConstantAmount s) = Some k"
    by (simp add: first_index_Some registered_at_def)
  then show ?thesis by (simp add: Register_eq)
qed

lemma Register_registered:
  assumes "same_constant r r" "Register r s = Inr (i, s1)"
  shows "\<exists>k. i = int k \<and> registered_at r k s1"
proof (cases "first_index (same_as r) (Constants s) (ConstantAmount s)")
  case None
  with assms(2) have a: "add_constant (entry_of r) s = Inr (i, s1)"
    by (simp add: Register_eq)
  then have n: "0 \<le> ConstantAmount s" and i: "i = ConstantAmount s"
    and s1: "s1 = s\<lparr>Constants := (Constants s)(nat (ConstantAmount s) := entry_of r),
                  ConstantAmount := ConstantAmount s + 1\<rparr>"
    by (auto simp: add_constant_def split: if_splits)
  from None have "\<forall>j. int j < ConstantAmount s \<longrightarrow> \<not> same_as r (Constants s j)"
    by (simp add: first_index_None)
  with n assms(1) have "registered_at r (nat (ConstantAmount s)) s1"
    by (auto simp: registered_at_def s1 same_as_entry)
  with n i show ?thesis by (intro exI [of _ "nat (ConstantAmount s)"]) simp
next
  case (Some k)
  with assms(2) have "i = int k" "s1 = s" by (simp_all add: Register_eq)
  moreover from Some have "registered_at r k s"
    by (simp add: first_index_Some registered_at_def)
  ultimately show ?thesis by blast
qed

lemma Register_keeps:
  assumes "registered_at r k s" "Register r' s = Inr (i, s1)"
  shows "registered_at r k s1"
proof (cases "first_index (same_as r') (Constants s) (ConstantAmount s)")
  case None
  with assms(2) have "add_constant (entry_of r') s = Inr (i, s1)"
    by (simp add: Register_eq)
  then have "s1 = s\<lparr>Constants := (Constants s)(nat (ConstantAmount s) := entry_of r'),
                  ConstantAmount := ConstantAmount s + 1\<rparr>"
    by (auto simp: add_constant_def split: if_splits)
  with assms(1) show ?thesis by (auto simp: registered_at_def split: if_splits)
next
  case (Some j)
  with assms show ?thesis by (simp add: Register_eq)
qed

lemma RegisterAll_keeps:
  "registered_at r k s \<Longrightarrow> RegisterAll rs s = Inr s2 \<Longrightarrow> registered_at r k s2"
proof (induction rs arbitrary: s)
  case Nil
  then show ?case by simp
next
  case (Cons r' rs)
  from Cons.prems(2) obtain i s1
    where 1: "Register r' s = Inr (i, s1)" and 2: "RegisterAll rs s1 = Inr s2"
    by (auto simp: thenE_eq_Inr)
  from Cons.prems(1) 1 have "registered_at r k s1" by (rule Register_keeps)
  then show ?case using 2 by (rule Cons.IH)
qed

lemma upt_numeral_snoc: "[0..<numeral n] = [0..<pred_numeral n] @ [pred_numeral n]"
  by (simp add: numeral_eq_Suc)

lemmas pool_defs = upt_numeral_snoc
  RegisterNumber_def RegisterString_def first_index_def add_constant_def same_number_def
  same_string_def double_eq_def isnan_def iszero_def MAX_CONST_AMT_def
  InitInterpreter_def ResetMachine_def zero_machine_def

text \<open>
  C7, as the claim states it, fails for a NaN: the search compares numbers with \<^verbatim>\<open>==\<close>,
  which a NaN never passes, so each registration of the same NaN appends a new entry.
  In a fresh interpreter the first registration of the quiet NaN returns index 0 and
  the second returns index 1.
\<close>

theorem nan_is_registered_twice:
  "\<exists>s1 s2. RegisterNumber 0x7FF8000000000000 (InitInterpreter zero_machine) = Inr (0, s1)
     \<and> RegisterNumber 0x7FF8000000000000 s1 = Inr (1, s2)"
  by (simp add: pool_defs)

lemma nan_not_found: "isnan v \<Longrightarrow> first_index (same_number v) cs n = None"
  by (auto simp: first_index_None same_number_def double_eq_def split: ConstInfo.splits)

text \<open>
  C7, amended: registration deduplicates under the comparison the search uses, \<^verbatim>\<open>==\<close> on
  numbers and \<^verbatim>\<open>strcmp\<close> on strings. Once a constant \<open>r\<close> that equals itself (any string,
  any number that is not a NaN) has been registered with index \<open>i\<close>, then after any
  further sequence of successful registrations, registering a constant \<open>r'\<close> that
  compares equal to \<open>r\<close> (the same bits, the same bytes, or the zero of the other sign)
  returns \<open>i\<close> again and leaves the pool as it is. A NaN \<open>v\<close> is never found, whatever
  the pool \<open>t\<close> holds: its registration is the append of a new entry, which in a pool
  with room returns the amount of constants as the index and stores \<open>v\<close> there.
\<close>

theorem constant_dedup:
  "(same_constant r r' \<and> Register r s = Inr (i, s1) \<and> RegisterAll rs s1 = Inr s2
      \<longrightarrow> Register r' s2 = Inr (i, s2))
   \<and> (isnan v \<longrightarrow> RegisterNumber v t = add_constant (CST_NUM v) t)
   \<and> (isnan v \<and> 0 \<le> ConstantAmount t \<and> ConstantAmount t < MAX_CONST_AMT
      \<longrightarrow> RegisterNumber v t =
            Inr (ConstantAmount t,
                 t\<lparr>Constants := (Constants t)(nat (ConstantAmount t) := CST_NUM v),
                   ConstantAmount := ConstantAmount t + 1\<rparr>))"
proof (intro conjI impI)
  assume a: "same_constant r r' \<and> Register r s = Inr (i, s1) \<and> RegisterAll rs s1 = Inr s2"
  then have "same_constant r r" by (blast intro: same_constant_refl)
  with a obtain k where i: "i = int k" and "registered_at r k s1"
    using Register_registered by blast
  with a have "registered_at r k s2" using RegisterAll_keeps by blast
  moreover from a have "same_constant r r'" by simp
  ultimately have "registered_at r' k s2"
    by (simp add: registered_at_def same_as_cong [of r r'])
  then show "Register r' s2 = Inr (i, s2)" using i by (simp add: Register_found)
next
  assume "isnan v"
  then show "RegisterNumber v t = add_constant (CST_NUM v) t"
    by (simp add: RegisterNumber_def nan_not_found)
next
  assume "isnan v \<and> 0 \<le> ConstantAmount t \<and> ConstantAmount t < MAX_CONST_AMT"
  then show "RegisterNumber v t =
            Inr (ConstantAmount t,
                 t\<lparr>Constants := (Constants t)(nat (ConstantAmount t) := CST_NUM v),
                   ConstantAmount := ConstantAmount t + 1\<rparr>)"
    by (simp add: RegisterNumber_def nan_not_found add_constant_def)
qed

theorem constant_dedup_witness:
  "(\<exists>i s1 s2.
     same_constant (NumberConstant 0) (NumberConstant 0x8000000000000000)
     \<and> Register (NumberConstant 0) (InitInterpreter zero_machine) = Inr (i, s1)
     \<and> RegisterAll [StringConstant ''hi'', NumberConstant 0x3FF0000000000000] s1 = Inr s2
     \<and> Register (NumberConstant 0x8000000000000000) s2 = Inr (i, s2))
   \<and> isnan 0x7FF8000000000000
   \<and> 0 \<le> ConstantAmount (InitInterpreter zero_machine)
   \<and> ConstantAmount (InitInterpreter zero_machine) < MAX_CONST_AMT
   \<and> RegisterNumber 0x7FF8000000000000 (InitInterpreter zero_machine)
       = add_constant (CST_NUM 0x7FF8000000000000) (InitInterpreter zero_machine)
   \<and> RegisterNumber 0x7FF8000000000000 (InitInterpreter zero_machine)
       = Inr (0, (InitInterpreter zero_machine)
                   \<lparr>Constants := (Constants (InitInterpreter zero_machine))
                                   (0 := CST_NUM 0x7FF8000000000000),
                     ConstantAmount := 1\<rparr>)"
proof -
  let ?s = "InitInterpreter zero_machine"
  let ?nan = "0x7FF8000000000000 :: double"
  have a: "same_constant (NumberConstant 0) (NumberConstant 0x8000000000000000)"
    by (simp add: double_eq_def isnan_def iszero_def)
  have "\<exists>i s1 s2. Register (NumberConstant 0) ?s = Inr (i, s1)
     \<and> RegisterAll [StringConstant ''hi'', NumberConstant 0x3FF0000000000000] s1 = Inr s2"
    by (simp add: pool_defs)
  then obtain i s1 s2
    where b: "Register (NumberConstant 0) ?s = Inr (i, s1)"
      and c: "RegisterAll [StringConstant ''hi'', NumberConstant 0x3FF0000000000000] s1 = Inr s2"
    by blast
  note T = constant_dedup [of "NumberConstant 0" "NumberConstant 0x8000000000000000" ?s i s1
      "[StringConstant ''hi'', NumberConstant 0x3FF0000000000000]" s2 ?nan ?s]
  from T a b c have 1: "Register (NumberConstant 0x8000000000000000) s2 = Inr (i, s2)"
    by blast
  have n: "isnan ?nan" by (simp add: isnan_def)
  have r: "0 \<le> ConstantAmount ?s" "ConstantAmount ?s < MAX_CONST_AMT"
    "ConstantAmount ?s = 0"
    by (simp_all add: pool_defs)
  from T n have 2: "RegisterNumber ?nan ?s = add_constant (CST_NUM ?nan) ?s"
    by blast
  from T n r(1,2) have "RegisterNumber ?nan ?s =
      Inr (ConstantAmount ?s, ?s\<lparr>Constants := (Constants ?s)(nat (ConstantAmount ?s) := CST_NUM ?nan),
                   ConstantAmount := ConstantAmount ?s + 1\<rparr>)"
    by blast
  then have 3: "RegisterNumber ?nan ?s =
      Inr (0, ?s\<lparr>Constants := (Constants ?s)(0 := CST_NUM ?nan), ConstantAmount := 1\<rparr>)"
    by (simp only: r(3)) simp
  from a b c 1 n r(1,2) 2 3 show ?thesis by blast
qed

subsection \<open>What an instruction leaves unchanged\<close>

lemma heap_only_refl [simp]: "heap_only s s"
  by (simp add: heap_only_def)

lemma heap_only_trans: "heap_only s s1 \<Longrightarrow> heap_only s1 s2 \<Longrightarrow> heap_only s s2"
proof -
  assume 1: "heap_only s s1" and 2: "heap_only s1 s2"
  from 2 have "s2 = s1\<lparr>GCHead := GCHead s2, NumObjects := NumObjects s2,
      MaxNumObjects := MaxNumObjects s2, Stdout := Stdout s2\<rparr>"
    by (simp add: heap_only_def)
  also from 1 have "s1 = s\<lparr>GCHead := GCHead s1, NumObjects := NumObjects s1,
      MaxNumObjects := MaxNumObjects s1, Stdout := Stdout s1\<rparr>"
    by (simp add: heap_only_def)
  finally have "s2 = s\<lparr>GCHead := GCHead s2, NumObjects := NumObjects s2,
      MaxNumObjects := MaxNumObjects s2, Stdout := Stdout s2\<rparr>"
    by simp
  then show ?thesis by (simp add: heap_only_def)
qed

lemma heap_only_update_object [simp]: "heap_only s (update_object a f s)"
  by (simp add: heap_only_def update_object_def)

lemma heap_only_Stdout [simp]: "heap_only s (s\<lparr>Stdout := out\<rparr>)"
  by (simp add: heap_only_def)

lemma Mark_related:
  assumes refl: "\<And>s. R s s"
    and trans: "\<And>s s1 s2. R s s1 \<Longrightarrow> R s1 s2 \<Longrightarrow> R s s2"
    and upd: "\<And>s a. R s (update_object a (\<lambda>ob. ob\<lparr>marked := True\<rparr>) s)"
    and out: "\<And>s x. R s (s\<lparr>Stdout := x\<rparr>)"
  shows "(\<forall>p s s'. Mark n p s = Inr s' \<longrightarrow> R s s')
   \<and> (\<forall>cs s s'. MarkHook n cs s = Inr s' \<longrightarrow> R s s')
   \<and> (\<forall>a i s s'. MarkValues n a i s = Inr s' \<longrightarrow> R s s')"
proof (induction n)
  case 0
  show ?case by simp
next
  case (Suc n)
  then have ihM: "\<And>p s s'. Mark n p s = Inr s' \<Longrightarrow> R s s'"
    and ihH: "\<And>cs s s'. MarkHook n cs s = Inr s' \<Longrightarrow> R s s'"
    and ihV: "\<And>a i s s'. MarkValues n a i s = Inr s' \<Longrightarrow> R s s'"
    by blast+
  have hook: "R s s'" if "MarkHook (Suc n) cs s = Inr s'" for cs s s'
  proof (cases cs)
    case Nil
    with that show ?thesis by (simp add: refl)
  next
    case (Cons c cs')
    with that obtain s1 where "Mark n c s = Inr s1" "MarkHook n cs' s1 = Inr s'"
      by (auto simp: thenE_eq_Inr)
    then show ?thesis by (blast intro: trans ihM ihH)
  qed
  have vals: "R s s'" if "MarkValues (Suc n) a i s = Inr s'" for a i s s'
  proof -
    from that obtain vs where vs: "array_of s (Some a) = Inr vs"
      and r: "(if i < length vs then
         (case vs ! i of
            None \<Rightarrow> MarkValues n a (Suc i) s
          | Some c \<Rightarrow> thenE (Mark n (Some c) s) (MarkValues n a (Suc i)))
       else Inr s) = Inr s'"
      by (auto simp: thenE_eq_Inr)
    show ?thesis
    proof (cases "i < length vs")
      case False
      with r show ?thesis by (simp add: refl)
    next
      case True
      show ?thesis
      proof (cases "vs ! i")
        case None
        with r True show ?thesis by (simp add: ihV)
      next
        case (Some c)
        with r True obtain s1 where "Mark n (Some c) s = Inr s1" "MarkValues n a (Suc i) s1 = Inr s'"
          by (auto simp: thenE_eq_Inr)
        then show ?thesis by (blast intro: trans ihM ihV)
      qed
    qed
  qed
  have mark: "R s s'" if "Mark (Suc n) p s = Inr s'" for p s s'
  proof (cases p)
    case None
    with that show ?thesis by (auto intro: out)
  next
    case (Some a)
    show ?thesis
    proof (cases "map_of (GCHead s) a")
      case None
      with that Some show ?thesis by simp
    next
      case (Some ob)
      show ?thesis
      proof (cases "marked ob")
        case True
        with that \<open>p = Some a\<close> Some show ?thesis by (simp add: refl)
      next
        case False
        with that \<open>p = Some a\<close> Some obtain s1 s2 where
          1: "(case member ob of Native x (Some children) \<Rightarrow> MarkHook n children s | _ \<Rightarrow> Inr s) = Inr s1"
          and 2: "(case member ob of Array x \<Rightarrow> MarkValues n a 0 s1 | _ \<Rightarrow> Inr s1) = Inr s2"
          and 3: "s' = update_object a (\<lambda>ob. ob\<lparr>marked := True\<rparr>) s2"
          by (auto simp: thenE_eq_Inr split: if_splits)
        from 1 have "R s s1" by (auto split: Member.splits option.splits intro: ihH refl)
        moreover from 2 have "R s1 s2" by (auto split: Member.splits option.splits intro: ihV refl)
        moreover from 3 have "R s2 s'" by (simp add: upd)
        ultimately show ?thesis by (blast intro: trans)
      qed
    qed
  qed
  from hook vals mark show ?case by blast
qed

lemma Mark_heap_only: "Mark n p s = Inr s' \<Longrightarrow> heap_only s s'"
proof -
  have "(\<forall>p s s'. Mark n p s = Inr s' \<longrightarrow> heap_only s s')
   \<and> (\<forall>cs s s'. MarkHook n cs s = Inr s' \<longrightarrow> heap_only s s')
   \<and> (\<forall>a i s s'. MarkValues n a i s = Inr s' \<longrightarrow> heap_only s s')"
    by (rule Mark_related) (simp_all add: heap_only_trans)
  then show "Mark n p s = Inr s' \<Longrightarrow> heap_only s s'" by blast
qed

lemma MarkRoots_heap_only: "MarkRoots n rs s = Inr s' \<Longrightarrow> heap_only s s'"
proof (induction rs arbitrary: s)
  case Nil
  then show ?case by simp
next
  case (Cons r rs)
  then obtain s1 where "Mark n r s = Inr s1" "MarkRoots n rs s1 = Inr s'"
    by (auto simp: thenE_eq_Inr)
  with Cons.IH show ?case by (blast intro: heap_only_trans Mark_heap_only)
qed

lemma MarkAll_heap_only: "MarkAll n s = Inr s' \<Longrightarrow> heap_only s s'"
  by (auto simp: MarkAll_def thenE_eq_Inr split: if_splits
      intro: heap_only_trans dest!: MarkRoots_heap_only)

lemma heap_only_Sweep [simp]: "heap_only s (Sweep s)"
  by (cases "sweep_list (GCHead s) (NumObjects s)") (simp add: heap_only_def Sweep_def)

lemma heap_only_MaxNumObjects [simp]: "heap_only s (s\<lparr>MaxNumObjects := m\<rparr>)"
  by (simp add: heap_only_def)

lemma GarbageCollect_heap_only: "GarbageCollect n s = Inr s' \<Longrightarrow> heap_only s s'"
proof -
  assume "GarbageCollect n s = Inr s'"
  then obtain s1 where 1: "MarkAll n s = Inr s1"
    and 2: "s' = (Sweep s1)\<lparr>MaxNumObjects := NumObjects (Sweep s1) * 2\<rparr>"
    by (auto simp: GarbageCollect_def thenE_eq_Inr Let_def split: if_splits)
  from 1 have "heap_only s s1" by (rule MarkAll_heap_only)
  moreover have "heap_only s1 (Sweep s1)" by simp
  moreover from 2 have "heap_only (Sweep s1) s'" by simp
  ultimately show ?thesis by (blast intro: heap_only_trans)
qed

lemma allocate_Inr:
  "allocate ty s = Inr (z, s') \<longleftrightarrow>
     NumObjects s < INT_MAX \<and> z = NextAddress s
     \<and> s' = s\<lparr>GCHead := (z, \<lparr>marked = False, member = Unwritten ty\<rparr>) # GCHead s,
              NumObjects := NumObjects s + 1,
              NextAddress := Suc z\<rparr>"
  by (auto simp: allocate_def)

lemma heap_only_NextAddress: "heap_only s g \<Longrightarrow> NextAddress g = NextAddress s"
proof -
  assume "heap_only s g"
  then have "g = s\<lparr>GCHead := GCHead g, NumObjects := NumObjects g,
      MaxNumObjects := MaxNumObjects g, Stdout := Stdout g\<rparr>"
    by (simp add: heap_only_def)
  then have "NextAddress g = NextAddress (s\<lparr>GCHead := GCHead g, NumObjects := NumObjects g,
      MaxNumObjects := MaxNumObjects g, Stdout := Stdout g\<rparr>)"
    by simp
  then show ?thesis by simp
qed

lemma NewObject_Inr:
  assumes "NewObject n ty s = Inr (z, s')"
  shows "\<exists>g. heap_only s g \<and> (g = s \<or> GarbageCollect n s = Inr g)
     \<and> NumObjects g < INT_MAX \<and> z = NextAddress s
     \<and> s' = g\<lparr>GCHead := (z, \<lparr>marked = False, member = Unwritten ty\<rparr>) # GCHead g,
              NumObjects := NumObjects g + 1,
              NextAddress := Suc z\<rparr>"
proof (cases "MaxNumObjects s \<le> NumObjects s")
  case True
  with assms obtain g where g: "GarbageCollect n s = Inr g" and a: "allocate ty g = Inr (z, s')"
    by (auto simp: NewObject_def thenE_eq_Inr)
  from g have h: "heap_only s g" by (rule GarbageCollect_heap_only)
  from a h g heap_only_NextAddress [OF h] show ?thesis
    by (intro exI [of _ g]) (simp add: allocate_Inr)
next
  case False
  with assms have "allocate ty s = Inr (z, s')" by (simp add: NewObject_def)
  then show ?thesis by (intro exI [of _ s]) (simp add: allocate_Inr)
qed

lemma heap_only_set_member [simp]: "heap_only s (set_member a m s)"
  by (simp add: set_member_def)

lemma heap_only_frames: "heap_only s s' \<Longrightarrow> frames s' = frames s"
proof -
  assume "heap_only s s'"
  then have "s' = s\<lparr>GCHead := GCHead s', NumObjects := NumObjects s',
      MaxNumObjects := MaxNumObjects s', Stdout := Stdout s'\<rparr>"
    by (simp add: heap_only_def)
  then have "frames s' = frames (s\<lparr>GCHead := GCHead s', NumObjects := NumObjects s',
      MaxNumObjects := MaxNumObjects s', Stdout := Stdout s'\<rparr>)"
    by simp
  then show ?thesis by (simp add: frames_def)
qed

lemma NewObject_frames: "NewObject n ty s = Inr (a, s') \<Longrightarrow> frames s' = frames s"
proof -
  assume "NewObject n ty s = Inr (a, s')"
  from NewObject_Inr [OF this] obtain g where "heap_only s g"
    and "s' = g\<lparr>GCHead := (a, \<lparr>marked = False, member = Unwritten ty\<rparr>) # GCHead g,
              NumObjects := NumObjects g + 1, NextAddress := Suc a\<rparr>"
    by blast
  then show ?thesis using heap_only_frames [of s g] by (simp add: frames_def)
qed

lemma set_member_frames [simp]: "frames (set_member a m s) = frames s"
  by (simp add: heap_only_frames)

lemma advance_frames [simp]: "frames (advance s) = frames s"
  by (simp add: frames_def advance_def)

lemma ReadInteger_frames: "ReadInteger s = Inr (i, s') \<Longrightarrow> frames s' = frames s"
  by (auto simp: ReadInteger_def frames_def Let_def split: if_splits)

lemma DoPush_frames: "DoPush v s = Inr s' \<Longrightarrow> frames s' = frames s"
  by (auto simp: DoPush_def frames_def split: if_splits)

lemma DoPop_frames: "DoPop s = Inr (v, s') \<Longrightarrow> frames s' = frames s"
  by (auto simp: DoPop_def frames_def split: if_splits)

lemma PopInt_frames: "PopInt s = Inr (v, s') \<Longrightarrow> frames s' = frames s"
  by (auto simp: PopInt_def thenE_eq_Inr dest: DoPop_frames)

lemma NewNumber_frames: "NewNumber n v s = Inr (a, s') \<Longrightarrow> frames s' = frames s"
  by (auto simp: NewNumber_def thenE_eq_Inr dest: NewObject_frames)

lemma NewArray_frames: "NewArray n v s = Inr (a, s') \<Longrightarrow> frames s' = frames s"
  by (auto simp: NewArray_def thenE_eq_Inr dest: NewObject_frames split: if_splits)

lemma frames_Stdin [simp]: "frames (s\<lparr>Stdin := x\<rparr>) = frames s"
  by (simp add: frames_def)

lemma DoRead_frames: "DoRead n s = Inr s' \<Longrightarrow> frames s' = frames s"
  by (auto simp: DoRead_def thenE_eq_Inr Let_def split: if_splits
      dest!: NewObject_frames DoPush_frames)

lemma BIN_OP_frames: "BIN_OP f n s = Inr s' \<Longrightarrow> frames s' = frames s"
  by (auto simp: BIN_OP_def thenE_eq_Inr
      dest!: NewObject_frames DoPush_frames DoPop_frames)

lemma BIN_OP_INT_frames: "BIN_OP_INT f n s = Inr s' \<Longrightarrow> frames s' = frames s"
  by (auto simp: BIN_OP_INT_def thenE_eq_Inr
      dest!: NewObject_frames DoPush_frames DoPop_frames)


lemma frames_simps [simp]:
  "frames (s\<lparr>Stdout := x\<rparr>) = frames s"
  "frames (s\<lparr>ProgramCounter := pc\<rparr>) = frames s"
  "frames (s\<lparr>RuntimeVariableAmount := r\<rparr>) = frames s"
  "frames (s\<lparr>Variables := vs\<rparr>) = frames s"
  "frames (s\<lparr>Stack := st\<rparr>) = frames s"
  by (simp_all add: frames_def)

lemma PrintObject_frames: "PrintObject ob s = Inr s' \<Longrightarrow> frames s' = frames s"
  by (cases "member ob") (auto simp: PrintObject_def split: if_splits)

lemma ExecuteCase_frames:
  assumes "frame_safe H" "\<not> frame_op op" "ExecuteCase op H n s = Inr s'"
  shows "frames s' = frames s"
  using assms
  by (cases op)
     (auto simp: thenE_eq_Inr frame_safe_def split: if_splits ConstInfo.splits option.splits
       dest!: ReadInteger_frames NewObject_frames DoPush_frames DoPop_frames PopInt_frames
         NewNumber_frames NewArray_frames DoRead_frames BIN_OP_frames BIN_OP_INT_frames
         PrintObject_frames)

lemma IndirWrite_Inr:
  "IndirWrite v s = Inr s' \<longleftrightarrow>
     0 \<le> IndirStackSize s \<and> IndirStackSize s < MAX_INDIR
     \<and> s' = s\<lparr>IndirStack := (IndirStack s)(nat (IndirStackSize s) := v),
              IndirStackSize := IndirStackSize s + 1\<rparr>"
  by (auto simp: IndirWrite_def)

lemma IndirRead_Inr:
  "IndirRead s = Inr (v, s') \<longleftrightarrow>
     1 \<le> IndirStackSize s \<and> IndirStackSize s \<le> MAX_INDIR
     \<and> v = IndirStack s (nat (IndirStackSize s - 1))
     \<and> s' = s\<lparr>IndirStackSize := IndirStackSize s - 1\<rparr>"
  by (auto simp: IndirRead_def)

lemma DoPushIndir_Inr:
  assumes "DoPushIndir nargs s = Inr s'"
  shows "0 \<le> IndirStackSize s \<and> IndirStackSize s + 3 \<le> MAX_INDIR
     \<and> s' = s\<lparr>IndirStack := (IndirStack s)
                  (nat (IndirStackSize s) := nargs,
                   nat (IndirStackSize s + 1) := FramePointer s,
                   nat (IndirStackSize s + 2) := ProgramCounter s),
              IndirStackSize := IndirStackSize s + 3,
              FramePointer := StackSize s\<rparr>"
proof -
  from assms obtain s1 s2 s3
    where 1: "IndirWrite nargs s = Inr s1"
      and 2: "IndirWrite (FramePointer s1) s1 = Inr s2"
      and 3: "IndirWrite (ProgramCounter s2) s2 = Inr s3"
      and 4: "s' = s3\<lparr>FramePointer := StackSize s3\<rparr>"
    unfolding DoPushIndir_def thenE_eq_Inr by blast
  from 1 have a: "0 \<le> IndirStackSize s" "IndirStackSize s < MAX_INDIR"
    and s1: "s1 = s\<lparr>IndirStack := (IndirStack s)(nat (IndirStackSize s) := nargs),
                    IndirStackSize := IndirStackSize s + 1\<rparr>"
    by (simp_all add: IndirWrite_Inr)
  from 2 have b: "IndirStackSize s1 < MAX_INDIR"
    and s2: "s2 = s1\<lparr>IndirStack := (IndirStack s1)(nat (IndirStackSize s1) := FramePointer s1),
                    IndirStackSize := IndirStackSize s1 + 1\<rparr>"
    by (simp_all add: IndirWrite_Inr)
  from 3 have c: "IndirStackSize s2 < MAX_INDIR"
    and s3: "s3 = s2\<lparr>IndirStack := (IndirStack s2)(nat (IndirStackSize s2) := ProgramCounter s2),
                    IndirStackSize := IndirStackSize s2 + 1\<rparr>"
    by (simp_all add: IndirWrite_Inr)
  from c have "IndirStackSize s + 3 \<le> MAX_INDIR" by (simp add: s2 s1)
  moreover have "s' = s\<lparr>IndirStack := (IndirStack s)
                  (nat (IndirStackSize s) := nargs,
                   nat (IndirStackSize s + 1) := FramePointer s,
                   nat (IndirStackSize s + 2) := ProgramCounter s),
              IndirStackSize := IndirStackSize s + 3,
              FramePointer := StackSize s\<rparr>"
    by (simp add: 4 s3 s2 s1 add.commute)
  ultimately show ?thesis using a by simp
qed

lemma DoPopIndir_Inr:
  assumes "DoPopIndir s = Inr s'"
  shows "3 \<le> IndirStackSize s \<and> IndirStackSize s \<le> MAX_INDIR
     \<and> int_range (FramePointer s - IndirStack s (nat (IndirStackSize s - 3)))
     \<and> s' = s\<lparr>IndirStackSize := IndirStackSize s - 3,
              StackSize := FramePointer s - IndirStack s (nat (IndirStackSize s - 3)),
              FramePointer := IndirStack s (nat (IndirStackSize s - 2)),
              ProgramCounter := IndirStack s (nat (IndirStackSize s - 1))\<rparr>"
  using assms
  by (auto simp: DoPopIndir_def thenE_eq_Inr IndirRead_Inr split: if_splits)

subsection \<open>Calls and returns\<close>

lemma in_call_frames: "frames t' = frames t \<Longrightarrow> in_call b a f r p t' = in_call b a f r p t"
  by (simp add: frames_def in_call_def)

lemma ReadInteger_Inr:
  "ReadInteger s = Inr (i, s') \<longleftrightarrow>
     0 \<le> ProgramCounter s \<and> ProgramCounter s + 3 < MAX_PROG_LEN
     \<and> i = int_of_bytes (Program s (nat (ProgramCounter s))) (Program s (nat (ProgramCounter s + 1)))
                         (Program s (nat (ProgramCounter s + 2))) (Program s (nat (ProgramCounter s + 3)))
     \<and> s' = s\<lparr>ProgramCounter := ProgramCounter s + 4\<rparr>"
  by (auto simp: ReadInteger_def Let_def)

lemma DoPop_Inr:
  "DoPop s = Inr (v, s') \<longleftrightarrow>
     0 < StackSize s \<and> StackSize s \<le> MAX_STACK
     \<and> v = Stack s (nat (StackSize s - 1)) \<and> s' = s\<lparr>StackSize := StackSize s - 1\<rparr>"
  by (auto simp: DoPop_def)

lemma DoPush_Inr:
  "DoPush v s = Inr s' \<longleftrightarrow>
     0 \<le> StackSize s \<and> StackSize s < MAX_STACK
     \<and> s' = s\<lparr>Stack := (Stack s)(nat (StackSize s) := v), StackSize := StackSize s + 1\<rparr>"
  by (auto simp: DoPush_def)

lemma CALL_Inr:
  assumes "ExecuteCase OP_CALL H n s = Inr s'" "0 \<le> ProgramCounter s"
  shows "0 \<le> IndirStackSize s \<and> IndirStackSize s' = IndirStackSize s + 3
     \<and> IndirStack s' = (IndirStack s)
          (nat (IndirStackSize s) := operand1 s,
           nat (IndirStackSize s + 1) := FramePointer s,
           nat (IndirStackSize s + 2) := ProgramCounter s + 9)
     \<and> FramePointer s' = StackSize s \<and> StackSize s' = StackSize s"
proof -
  from assms(1) obtain nargs s1 pcIdx s2 s3
    where 1: "ReadInteger (advance s) = Inr (nargs, s1)"
      and 2: "ReadInteger s1 = Inr (pcIdx, s2)"
      and 3: "DoPushIndir nargs s2 = Inr s3"
      and 4: "s' = s3\<lparr>ProgramCounter := FunctionPcs s3 (nat pcIdx)\<rparr>"
    by (auto simp: thenE_eq_Inr split: if_splits)
  from 1 assms(2) have n: "nargs = operand1 s" and s1: "s1 = s\<lparr>ProgramCounter := ProgramCounter s + 5\<rparr>"
    by (auto simp: ReadInteger_Inr advance_def operand1_def add.commute)
  from 2 s1 have s2: "s2 = s\<lparr>ProgramCounter := ProgramCounter s + 9\<rparr>"
    by (auto simp: ReadInteger_Inr)
  from DoPushIndir_Inr [OF 3] s2 n 4 show ?thesis
    by simp
qed

lemma RETURN_Inr:
  assumes "ExecuteCase OP_RETURN H n s = Inr s'"
  shows "3 \<le> IndirStackSize s \<and> IndirStackSize s' = IndirStackSize s - 3
     \<and> IndirStack s' = IndirStack s
     \<and> StackSize s' = FramePointer s - IndirStack s (nat (IndirStackSize s - 3))
     \<and> FramePointer s' = IndirStack s (nat (IndirStackSize s - 2))
     \<and> ProgramCounter s' = IndirStack s (nat (IndirStackSize s - 1))"
  using assms by (auto dest!: DoPopIndir_Inr)

lemma RETURN_VALUE_Inr:
  assumes "ExecuteCase OP_RETURN_VALUE H n s = Inr s'"
  shows "3 \<le> IndirStackSize s \<and> IndirStackSize s' = IndirStackSize s - 3
     \<and> IndirStack s' = IndirStack s
     \<and> StackSize s' = FramePointer s - IndirStack s (nat (IndirStackSize s - 3)) + 1
     \<and> FramePointer s' = IndirStack s (nat (IndirStackSize s - 2))
     \<and> ProgramCounter s' = IndirStack s (nat (IndirStackSize s - 1))"
  using assms by (auto simp: thenE_eq_Inr DoPop_Inr DoPush_Inr dest!: DoPopIndir_Inr)


lemma fun_upd_nat:
  "0 \<le> i \<Longrightarrow> 0 \<le> j \<Longrightarrow> (f(nat i := v)) (nat j) = (if j = i then v else f (nat j))"
  by auto

lemma in_call_step:
  assumes H: "frame_safe H" and inv: "in_call b a f r p t"
    and step: "ExecuteCycle H n t = Inr t'" and lvl: "b + 3 \<le> IndirStackSize t'"
  shows "in_call b a f r p t'"
proof (cases "opcode_of (Program t (nat (ProgramCounter t)))")
  case None
  with step have "t' = t" by (simp add: ExecuteCycle_def split: if_splits)
  with inv show ?thesis by simp
next
  case (Some op)
  with step have ex: "ExecuteCase op H n t = Inr t'" and pc: "0 \<le> ProgramCounter t"
    by (simp_all add: ExecuteCycle_def split: if_splits)
  show ?thesis
  proof (cases "frame_op op")
    case False
    from H False ex have "frames t' = frames t" by (rule ExecuteCase_frames)
    from in_call_frames [OF this] inv show ?thesis by simp
  next
    case True
    then consider "op = OP_CALL" | "op = OP_RETURN" | "op = OP_RETURN_VALUE"
      by (cases op) simp_all
    then have "(0 \<le> IndirStackSize t \<and> IndirStackSize t' = IndirStackSize t + 3
         \<and> IndirStack t' = (IndirStack t)
          (nat (IndirStackSize t) := operand1 t,
           nat (IndirStackSize t + 1) := FramePointer t,
           nat (IndirStackSize t + 2) := ProgramCounter t + 9)
         \<and> FramePointer t' = StackSize t)
      \<or> (3 \<le> IndirStackSize t \<and> IndirStackSize t' = IndirStackSize t - 3
         \<and> IndirStack t' = IndirStack t
         \<and> FramePointer t' = IndirStack t (nat (IndirStackSize t - 2)))"
    proof cases
      case 1
      with ex have "ExecuteCase OP_CALL H n t = Inr t'" by simp
      from CALL_Inr [OF this pc] show ?thesis by simp
    next
      case 2
      with ex have "ExecuteCase OP_RETURN H n t = Inr t'" by simp
      from RETURN_Inr [OF this] show ?thesis by simp
    next
      case 3
      with ex have "ExecuteCase OP_RETURN_VALUE H n t = Inr t'" by simp
      from RETURN_VALUE_Inr [OF this] show ?thesis by simp
    qed
    then show ?thesis
    proof
      assume c: "0 \<le> IndirStackSize t \<and> IndirStackSize t' = IndirStackSize t + 3
         \<and> IndirStack t' = (IndirStack t)
          (nat (IndirStackSize t) := operand1 t,
           nat (IndirStackSize t + 1) := FramePointer t,
           nat (IndirStackSize t + 2) := ProgramCounter t + 9)
         \<and> FramePointer t' = StackSize t"
      from inv have b: "0 \<le> b" "b + 3 \<le> IndirStackSize t" "(IndirStackSize t - b) mod 3 = 0"
        by (simp_all add: in_call_def)
      from c have sz: "IndirStackSize t' = IndirStackSize t + 3" by simp
      with b(3) have m: "(IndirStackSize t' - b) mod 3 = 0" by presburger
      show ?thesis
      proof (cases "IndirStackSize t = b + 3")
        case True
        with inv c b m show ?thesis by (simp add: in_call_def fun_upd_nat del: fun_upd_apply)
      next
        case False
        with b have "b + 6 \<le> IndirStackSize t" by presburger
        with inv c b m False show ?thesis by (simp add: in_call_def fun_upd_nat del: fun_upd_apply)
      qed
    next
      assume c: "3 \<le> IndirStackSize t \<and> IndirStackSize t' = IndirStackSize t - 3
         \<and> IndirStack t' = IndirStack t
         \<and> FramePointer t' = IndirStack t (nat (IndirStackSize t - 2))"
      from inv have b: "0 \<le> b" "b + 3 \<le> IndirStackSize t" "(IndirStackSize t - b) mod 3 = 0"
        by (simp_all add: in_call_def)
      from c lvl have 6: "b + 6 \<le> IndirStackSize t" by simp
      from c have sz: "IndirStackSize t' = IndirStackSize t - 3" by simp
      with b(3) have m: "(IndirStackSize t' - b) mod 3 = 0" by presburger
      show ?thesis
      proof (cases "IndirStackSize t' = b + 3")
        case True
        with c have "IndirStackSize t - 2 = b + 4" by simp
        with inv c b lvl m 6 True show ?thesis by (simp add: in_call_def)
      next
        case False
        with inv c b lvl m 6 show ?thesis by (simp add: in_call_def)
      qed
    qed
  qed
qed


lemma CallBody_in_call:
  assumes "frame_safe H"
  shows "in_call b a f r p t \<Longrightarrow> CallBody H n (b + 3) k t = Some u \<Longrightarrow> in_call b a f r p u"
proof (induction k arbitrary: t)
  case 0
  then show ?case by (simp split: if_splits)
next
  case (Suc k)
  from Suc.prems(2) obtain t' where 1: "ExecuteCycle H n t = Inr t'"
    and 2: "CallBody H n (b + 3) k t' = Some u"
    by (auto split: if_splits sum.splits)
  from 2 have "b + 3 \<le> IndirStackSize t'" by (cases k) (auto split: if_splits)
  with assms Suc.prems(1) 1 have "in_call b a f r p t'" by (rule in_call_step)
  then show ?case using 2 by (rule Suc.IH)
qed

text \<open>
  C1. Let the machine \<open>s\<close> execute \<^verbatim>\<open>CALL nargs, procId\<close>, giving \<open>t\<close>; let \<open>u\<close> be a
  machine reached from \<open>t\<close> by cycles of the run loop during which the indirection stack
  never drops below the frame of this call, and let \<open>u\<close> execute \<^verbatim>\<open>RETURN\<close> or
  \<^verbatim>\<open>RETURN_VALUE\<close> with exactly this frame on top, giving \<open>v\<close>: the call returns normally.
  Then the operand stack of \<open>v\<close> has the size it had in \<open>s\<close> minus \<open>nargs\<close>, plus one
  after \<^verbatim>\<open>RETURN_VALUE\<close>; the frame pointer of \<open>v\<close> is that of \<open>s\<close>; and the program
  counter of \<open>v\<close> is the one the call saved, the address of the instruction after the
  \<^verbatim>\<open>CALL\<close> and its two operands. The body is arbitrary code, nested calls and
  collections included; foreign functions are assumed to leave the frame pointer and the
  indirection stack alone.
\<close>

theorem call_return_balance:
  assumes host: "frame_safe H"
    and call: "running s" "opcode_at s = Some OP_CALL" "ExecuteCycle H n s = Inr t"
    and body: "CallBody H n (IndirStackSize s + 3) k t = Some u"
    and ret: "IndirStackSize u = IndirStackSize s + 3" "running u" "opcode_at u = Some op"
      "op = OP_RETURN \<or> op = OP_RETURN_VALUE" "ExecuteCycle H n u = Inr v"
  shows "StackSize v = StackSize s - operand1 s + (if op = OP_RETURN_VALUE then 1 else 0)
     \<and> FramePointer v = FramePointer s
     \<and> ProgramCounter v = ProgramCounter s + 9"
proof -
  from call have pc: "0 \<le> ProgramCounter s" and c: "ExecuteCase OP_CALL H n s = Inr t"
    by (auto simp: running_def ExecuteCycle_def opcode_at_def split: if_splits)
  from CALL_Inr [OF c pc]
  have "in_call (IndirStackSize s) (operand1 s) (FramePointer s) (ProgramCounter s + 9) (StackSize s) t"
    by (simp add: in_call_def fun_upd_nat del: fun_upd_apply)
  with host have u: "in_call (IndirStackSize s) (operand1 s) (FramePointer s) (ProgramCounter s + 9) (StackSize s) u"
    using body by (rule CallBody_in_call)
  from ret have r: "ExecuteCase op H n u = Inr v"
    by (auto simp: running_def ExecuteCycle_def opcode_at_def split: if_splits)
  from ret(4) show ?thesis
  proof
    assume op: "op = OP_RETURN"
    with r have "ExecuteCase OP_RETURN H n u = Inr v" by simp
    from RETURN_Inr [OF this] u ret(1) op show ?thesis by (simp add: in_call_def add.commute)
  next
    assume op: "op = OP_RETURN_VALUE"
    with r have "ExecuteCase OP_RETURN_VALUE H n u = Inr v" by simp
    from RETURN_VALUE_Inr [OF this] u ret(1) op show ?thesis by (simp add: in_call_def add.commute)
  qed
qed

lemmas exec_defs =
  ExecuteCycle_def opcode_of_def opcodes_def ReadInteger_def advance_def int_of_bytes_def
  DoPush_def DoPop_def DoPushIndir_def DoPopIndir_def IndirWrite_def IndirRead_def
  MAX_PROG_LEN_def MAX_STACK_def MAX_INDIR_def MAX_VARS_def MAX_FUNCS_def
  int_range_def INT_MAX_def running_def opcode_at_def operand1_def load_def
  InitInterpreter_def ResetMachine_def zero_machine_def

theorem call_return_balance_witness:
  "\<exists>t u v.
     frame_safe plain_host
     \<and> running call_example \<and> opcode_at call_example = Some OP_CALL
     \<and> ExecuteCycle plain_host 0 call_example = Inr t
     \<and> CallBody plain_host 0 (IndirStackSize call_example + 3) 1 t = Some u
     \<and> IndirStackSize u = IndirStackSize call_example + 3
     \<and> running u \<and> opcode_at u = Some OP_RETURN_VALUE
     \<and> ExecuteCycle plain_host 0 u = Inr v
     \<and> StackSize v = StackSize call_example - operand1 call_example + 1
     \<and> FramePointer v = FramePointer call_example
     \<and> ProgramCounter v = ProgramCounter call_example + 9"
proof -
  have h: "frame_safe plain_host"
    by (simp add: frame_safe_def plain_host_def)
  have c: "running call_example" "opcode_at call_example = Some OP_CALL"
    by (simp_all add: exec_defs call_example_def)
  have "\<exists>t u v. ExecuteCycle plain_host 0 call_example = Inr t
     \<and> CallBody plain_host 0 (IndirStackSize call_example + 3) 1 t = Some u
     \<and> IndirStackSize u = IndirStackSize call_example + 3
     \<and> running u \<and> opcode_at u = Some OP_RETURN_VALUE
     \<and> ExecuteCycle plain_host 0 u = Inr v"
    by (simp add: exec_defs call_example_def)
  then obtain t u v where 1: "ExecuteCycle plain_host 0 call_example = Inr t"
    and 2: "CallBody plain_host 0 (IndirStackSize call_example + 3) 1 t = Some u"
    and 3: "IndirStackSize u = IndirStackSize call_example + 3"
    and 4: "running u" and 5: "opcode_at u = Some OP_RETURN_VALUE"
    and 6: "ExecuteCycle plain_host 0 u = Inr v"
    by blast
  have 7: "OP_RETURN_VALUE = OP_RETURN \<or> OP_RETURN_VALUE = OP_RETURN_VALUE" by simp
  from call_return_balance [OF h c 1 2 3 4 5 7 6] h c 1 2 3 4 5 6 show ?thesis
    by (intro exI [of _ t] exI [of _ u] exI [of _ v]) simp
qed

subsection \<open>Single instructions\<close>

lemma ExecuteCycle_at:
  "0 \<le> ProgramCounter s \<Longrightarrow> ProgramCounter s < MAX_PROG_LEN \<Longrightarrow> opcode_at s = Some op
   \<Longrightarrow> ExecuteCycle H n s = ExecuteCase op H n s"
  by (simp add: ExecuteCycle_def opcode_at_def)

lemma deref_heap: "GCHead s' = GCHead s \<Longrightarrow> deref s' p = deref s p"
  by (cases p) (simp_all add: deref_def)

lemma number_of_heap: "GCHead s' = GCHead s \<Longrightarrow> number_of s' p = number_of s p"
  by (simp add: number_of_def deref_heap [of s' s])

lemma array_of_heap: "GCHead s' = GCHead s \<Longrightarrow> array_of s' p = array_of s p"
  by (simp add: array_of_def deref_heap [of s' s])

lemma deref_simps [simp]:
  "deref (s\<lparr>StackSize := x\<rparr>) p = deref s p"
  "deref (s\<lparr>ProgramCounter := y\<rparr>) p = deref s p"
  "deref (s\<lparr>Stack := z\<rparr>) p = deref s p"
  "deref (advance s) p = deref s p"
  by (rule deref_heap, simp add: advance_def)+

lemma number_of_simps [simp]:
  "number_of (s\<lparr>StackSize := x\<rparr>) p = number_of s p"
  "number_of (s\<lparr>ProgramCounter := y\<rparr>) p = number_of s p"
  "number_of (s\<lparr>Stack := z\<rparr>) p = number_of s p"
  "number_of (advance s) p = number_of s p"
  by (rule number_of_heap, simp add: advance_def)+

lemma array_of_simps [simp]:
  "array_of (s\<lparr>StackSize := x\<rparr>) p = array_of s p"
  "array_of (s\<lparr>ProgramCounter := y\<rparr>) p = array_of s p"
  "array_of (s\<lparr>Stack := z\<rparr>) p = array_of s p"
  "array_of (advance s) p = array_of s p"
  by (rule array_of_heap, simp add: advance_def)+

lemma PrintObject_other:
  "type_of (member ob) = OBJ_ARRAY \<or> type_of (member ob) = OBJ_NATIVE \<Longrightarrow> PrintObject ob s = Inr s"
  by (cases "member ob") (auto simp: PrintObject_def)

lemma DoPop_eq:
  assumes "0 < StackSize s" "StackSize s \<le> MAX_STACK"
  shows "DoPop s = Inr (stack_top s 0, s\<lparr>StackSize := StackSize s - 1\<rparr>)"
  using assms by (simp add: DoPop_def stack_top_def)

lemma PopInt_eq:
  assumes "0 < StackSize s" "StackSize s \<le> MAX_STACK" "int_at s (stack_top s 0) = Inr i"
  shows "PopInt s = Inr (i, s\<lparr>StackSize := StackSize s - 1\<rparr>)"
proof -
  from assms(3) obtain d where "number_of s (stack_top s 0) = Inr d" "cast_int d = Inr i"
    by (auto simp: int_at_def thenE_eq_Inr)
  then show ?thesis
    by (simp add: PopInt_def DoPop_eq [OF assms(1,2)])
qed

lemma stack_top_simps [simp]:
  "stack_top (advance s) k = stack_top s k"
  "stack_top (s\<lparr>StackSize := StackSize s - 1\<rparr>) k = stack_top s (k + 1)"
  "stack_top (s\<lparr>ProgramCounter := pc\<rparr>) k = stack_top s k"
  by (simp_all add: stack_top_def advance_def algebra_simps)

lemma int_at_simps [simp]:
  "int_at (advance s) p = int_at s p"
  "int_at (s\<lparr>StackSize := x\<rparr>) p = int_at s p"
  by (simp_all add: int_at_def)

lemma advance_fields [simp]:
  "StackSize (advance s) = StackSize s"
  "ProgramCounter (advance s) = ProgramCounter s + 1"
  "Stack (advance s) = Stack s"
  "GCHead (advance s) = GCHead s"
  by (simp_all add: advance_def)


lemma GETINDEX_outside:
  assumes "2 \<le> StackSize s" "StackSize s \<le> MAX_STACK"
    and "int_at s (stack_top s 0) = Inr i" "array_of s (stack_top s 1) = Inr vs"
    and "i < 0 \<or> int (length vs) \<le> i"
  shows "ExecuteCase OP_GETINDEX H n s = Inl (Fatal (ArrayIndexOutOfBounds i))"
proof -
  let ?s1 = "(advance s)\<lparr>StackSize := StackSize (advance s) - 1\<rparr>"
  let ?s2 = "?s1\<lparr>StackSize := StackSize ?s1 - 1\<rparr>"
  have a: "0 < StackSize (advance s)" "StackSize (advance s) \<le> MAX_STACK"
    using assms(1,2) by simp_all
  have b: "int_at (advance s) (stack_top (advance s) 0) = Inr i"
    using assms(3) by simp
  have 1: "PopInt (advance s) = Inr (i, ?s1)"
    using a b by (rule PopInt_eq)
  have c: "0 < StackSize ?s1" "StackSize ?s1 \<le> MAX_STACK"
    using assms(1,2) by simp_all
  have 2: "DoPop ?s1 = Inr (stack_top ?s1 0, ?s2)"
    using c by (rule DoPop_eq)
  have 3: "stack_top ?s1 0 = stack_top s 1"
    by (simp add: stack_top_def)
  from assms(4) have 4: "array_of ?s2 (stack_top s 1) = Inr vs" by simp
  have "ExecuteCase OP_GETINDEX H n s =
      (if 0 \<le> i \<and> i < int (length vs)
       then (case vs ! nat i of
               Some a \<Rightarrow> DoPush (Some a) ?s2
             | None \<Rightarrow> thenE (NewNumber n 0 ?s2) (\<lambda>(zero, s3). DoPush (Some zero) s3))
       else Inl (Fatal (ArrayIndexOutOfBounds i)))"
    by (simp only: ExecuteCase.simps 1 2 3 4 thenE_simps prod.case)
  with assms(5) show ?thesis by auto
qed

lemma SETINDEX_outside:
  assumes "3 \<le> StackSize s" "StackSize s \<le> MAX_STACK"
    and "int_at s (stack_top s 1) = Inr i" "array_of s (stack_top s 2) = Inr vs"
    and "i < 0 \<or> int (length vs) \<le> i"
  shows "ExecuteCase OP_SETINDEX H n s = Inl (Fatal (ArrayIndexOutOfBounds i))"
proof -
  let ?s1 = "(advance s)\<lparr>StackSize := StackSize (advance s) - 1\<rparr>"
  let ?s2 = "?s1\<lparr>StackSize := StackSize ?s1 - 1\<rparr>"
  let ?s3 = "?s2\<lparr>StackSize := StackSize ?s2 - 1\<rparr>"
  have a: "0 < StackSize (advance s)" "StackSize (advance s) \<le> MAX_STACK"
    using assms(1,2) by simp_all
  have 1: "DoPop (advance s) = Inr (stack_top (advance s) 0, ?s1)"
    using a by (rule DoPop_eq)
  have t1: "stack_top ?s1 0 = stack_top s 1"
    by (simp add: stack_top_def)
  have b: "0 < StackSize ?s1" "StackSize ?s1 \<le> MAX_STACK" "int_at ?s1 (stack_top ?s1 0) = Inr i"
    using assms(1,2,3) by (simp_all add: stack_top_def)
  have 2: "PopInt ?s1 = Inr (i, ?s2)"
    using b by (rule PopInt_eq)
  have c: "0 < StackSize ?s2" "StackSize ?s2 \<le> MAX_STACK"
    using assms(1,2) by simp_all
  have 3: "DoPop ?s2 = Inr (stack_top ?s2 0, ?s3)"
    using c by (rule DoPop_eq)
  have t2: "stack_top ?s2 0 = stack_top s 2"
    by (simp add: stack_top_def)
  from assms(4) have 4: "array_of ?s3 (stack_top s 2) = Inr vs" by simp
  have "ExecuteCase OP_SETINDEX H n s =
      (if 0 \<le> i \<and> i < int (length vs)
       then Inr (set_member (the (stack_top s 2)) (Array (vs[nat i := stack_top (advance s) 0])) ?s3)
       else Inl (Fatal (ArrayIndexOutOfBounds i)))"
    by (simp only: ExecuteCase.simps 1 2 3 4 t2 thenE_simps prod.case)
  with assms(5) show ?thesis by auto
qed

lemma heap_only_fields:
  assumes "heap_only s g"
  shows "StackSize g = StackSize s" "ProgramCounter g = ProgramCounter s" "Stack g = Stack s"
    "Program g = Program s" "Variables g = Variables s" "Constants g = Constants s"
    "RuntimeVariableAmount g = RuntimeVariableAmount s"
proof -
  from assms have "g = s\<lparr>GCHead := GCHead g, NumObjects := NumObjects g,
      MaxNumObjects := MaxNumObjects g, Stdout := Stdout g\<rparr>" (is "g = ?r")
    by (simp add: heap_only_def)
  then have "StackSize g = StackSize ?r" "ProgramCounter g = ProgramCounter ?r" "Stack g = Stack ?r"
    "Program g = Program ?r" "Variables g = Variables ?r" "Constants g = Constants ?r"
    "RuntimeVariableAmount g = RuntimeVariableAmount ?r"
    by simp_all
  then show "StackSize g = StackSize s" "ProgramCounter g = ProgramCounter s" "Stack g = Stack s"
    "Program g = Program s" "Variables g = Variables s" "Constants g = Constants s"
    "RuntimeVariableAmount g = RuntimeVariableAmount s"
    by simp_all
qed

lemma NewNumber_Inr:
  assumes "NewNumber n v s = Inr (z, s')"
  shows "z = NextAddress s \<and> StackSize s' = StackSize s \<and> ProgramCounter s' = ProgramCounter s
     \<and> Stack s' = Stack s
     \<and> deref s' (Some z) = Inr \<lparr>marked = False, member = Number v\<rparr>"
proof -
  from assms obtain s1 where 1: "NewObject n OBJ_NUM s = Inr (z, s1)"
    and 2: "s' = set_member z (Number v) s1"
    by (auto simp: NewNumber_def thenE_eq_Inr)
  from NewObject_Inr [OF 1] obtain g where g: "heap_only s g" and z: "z = NextAddress s"
    and s1: "s1 = g\<lparr>GCHead := (z, \<lparr>marked = False, member = Unwritten OBJ_NUM\<rparr>) # GCHead g,
              NumObjects := NumObjects g + 1, NextAddress := Suc z\<rparr>"
    by blast
  from 2 s1 heap_only_fields [OF g] z show ?thesis
    by (simp add: set_member_def update_object_def deref_def)
qed

lemma GETINDEX_inside:
  assumes "2 \<le> StackSize s" "StackSize s \<le> MAX_STACK"
    and "int_at s (stack_top s 0) = Inr i" "array_of s (stack_top s 1) = Inr vs"
    and "0 \<le> i" "i < int (length vs)" "vs ! nat i = None"
  shows "ExecuteCase OP_GETINDEX H n s =
     thenE (NewNumber n 0 (s\<lparr>ProgramCounter := ProgramCounter s + 1, StackSize := StackSize s - 2\<rparr>))
       (\<lambda>(zero, s3). DoPush (Some zero) s3)"
proof -
  let ?s1 = "(advance s)\<lparr>StackSize := StackSize (advance s) - 1\<rparr>"
  let ?s2 = "?s1\<lparr>StackSize := StackSize ?s1 - 1\<rparr>"
  have a: "0 < StackSize (advance s)" "StackSize (advance s) \<le> MAX_STACK"
    using assms(1,2) by simp_all
  have b: "int_at (advance s) (stack_top (advance s) 0) = Inr i"
    using assms(3) by simp
  have 1: "PopInt (advance s) = Inr (i, ?s1)"
    using a b by (rule PopInt_eq)
  have c: "0 < StackSize ?s1" "StackSize ?s1 \<le> MAX_STACK"
    using assms(1,2) by simp_all
  have 2: "DoPop ?s1 = Inr (stack_top ?s1 0, ?s2)"
    using c by (rule DoPop_eq)
  have 3: "stack_top ?s1 0 = stack_top s 1"
    by (simp add: stack_top_def)
  from assms(4) have 4: "array_of ?s2 (stack_top s 1) = Inr vs" by simp
  have 5: "?s2 = s\<lparr>ProgramCounter := ProgramCounter s + 1, StackSize := StackSize s - 2\<rparr>"
    by (simp add: advance_def)
  have "ExecuteCase OP_GETINDEX H n s =
      (if 0 \<le> i \<and> i < int (length vs)
       then (case vs ! nat i of
               Some a \<Rightarrow> DoPush (Some a) ?s2
             | None \<Rightarrow> thenE (NewNumber n 0 ?s2) (\<lambda>(zero, s3). DoPush (Some zero) s3))
       else Inl (Fatal (ArrayIndexOutOfBounds i)))"
    by (simp only: ExecuteCase.simps 1 2 3 4 thenE_simps prod.case)
  with assms(5-7) show ?thesis by (simp only: 5) simp
qed

lemma GETINDEX_zero:
  assumes "2 \<le> StackSize s" "StackSize s \<le> MAX_STACK"
    and "int_at s (stack_top s 0) = Inr i" "array_of s (stack_top s 1) = Inr vs"
    and "0 \<le> i" "i < int (length vs)" "vs ! nat i = None"
    and "ExecuteCase OP_GETINDEX H n s = Inr s'"
  shows "StackSize s' = StackSize s - 1 \<and> ProgramCounter s' = ProgramCounter s + 1
     \<and> stack_top s' 0 = Some (NextAddress s)
     \<and> deref s' (Some (NextAddress s)) = Inr \<lparr>marked = False, member = Number 0\<rparr>"
proof -
  let ?s2 = "s\<lparr>ProgramCounter := ProgramCounter s + 1, StackSize := StackSize s - 2\<rparr>"
  from assms(8) GETINDEX_inside [OF assms(1-7)] obtain z s3
    where 1: "NewNumber n 0 ?s2 = Inr (z, s3)" and 2: "DoPush (Some z) s3 = Inr s'"
    by (auto simp: thenE_eq_Inr)
  from NewNumber_Inr [OF 1] have z: "z = NextAddress s" and f: "StackSize s3 = StackSize s - 2"
    "ProgramCounter s3 = ProgramCounter s + 1"
    and d: "deref s3 (Some z) = Inr \<lparr>marked = False, member = Number 0\<rparr>"
    by auto
  from 2 have s': "s' = s3\<lparr>Stack := (Stack s3)(nat (StackSize s3) := Some z), StackSize := StackSize s3 + 1\<rparr>"
    by (simp add: DoPush_Inr)
  from d have "deref s' (Some z) = Inr \<lparr>marked = False, member = Number 0\<rparr>"
    by (simp add: s')
  with f z assms(1) show ?thesis by (simp add: s' stack_top_def)
qed

lemma GETINDEX_returns:
  assumes "2 \<le> StackSize s" "StackSize s \<le> MAX_STACK"
    and "int_at s (stack_top s 0) = Inr i" "array_of s (stack_top s 1) = Inr vs"
    and "0 \<le> i" "i < int (length vs)" "vs ! nat i = None"
    and "NumObjects s < MaxNumObjects s" "NumObjects s < INT_MAX"
  shows "\<exists>s'. ExecuteCase OP_GETINDEX H n s = Inr s'"
proof -
  have e: "ExecuteCase OP_GETINDEX H n s =
     thenE (NewNumber n 0 (s\<lparr>ProgramCounter := ProgramCounter s + 1, StackSize := StackSize s - 2\<rparr>))
       (\<lambda>(zero, s3). DoPush (Some zero) s3)"
    by (rule GETINDEX_inside [OF assms(1-7)])
  show ?thesis
    unfolding e using assms(1,2,8,9)
    by (simp add: NewNumber_def NewObject_def allocate_def DoPush_def
        set_member_def update_object_def)
qed

text \<open>
  C10. \<^verbatim>\<open>PRINT\<close> on an array or a native value: the value is popped, nothing is
  printed, no error is raised, and the program counter advances by one; nothing else
  of the machine changes.
\<close>

theorem print_skips_other_types:
  assumes "0 \<le> ProgramCounter s" "ProgramCounter s < MAX_PROG_LEN" "opcode_at s = Some OP_PRINT"
    and "0 < StackSize s" "StackSize s \<le> MAX_STACK"
    and "deref s (stack_top s 0) = Inr ob"
    and "type_of (member ob) = OBJ_ARRAY \<or> type_of (member ob) = OBJ_NATIVE"
  shows "ExecuteCycle H n s =
           Inr (s\<lparr>StackSize := StackSize s - 1, ProgramCounter := ProgramCounter s + 1\<rparr>)"
proof -
  from assms(4,5) have "DoPop s = Inr (stack_top s 0, s\<lparr>StackSize := StackSize s - 1\<rparr>)"
    by (simp add: DoPop_def stack_top_def)
  with assms(6) PrintObject_other [OF assms(7)]
  have "ExecuteCase OP_PRINT H n s =
           Inr (s\<lparr>StackSize := StackSize s - 1, ProgramCounter := ProgramCounter s + 1\<rparr>)"
    by (simp add: advance_def)
  with assms(1-3) show ?thesis by (simp add: ExecuteCycle_at)
qed

lemmas example_defs =
  exec_defs index_example_def stack_top_def int_at_def number_of_def array_of_def deref_def
  cast_int_def double_to_int_def

theorem print_skips_other_types_witness:
  "0 \<le> ProgramCounter (index_example 15 0 1)
   \<and> ProgramCounter (index_example 15 0 1) < MAX_PROG_LEN
   \<and> opcode_at (index_example 15 0 1) = Some OP_PRINT
   \<and> 0 < StackSize (index_example 15 0 1) \<and> StackSize (index_example 15 0 1) \<le> MAX_STACK
   \<and> deref (index_example 15 0 1) (stack_top (index_example 15 0 1) 0)
       = Inr \<lparr>marked = False, member = Array [None, None]\<rparr>
   \<and> ExecuteCycle plain_host 0 (index_example 15 0 1)
       = Inr ((index_example 15 0 1)\<lparr>StackSize := 0, ProgramCounter := 1\<rparr>)"
proof -
  let ?s = "index_example 15 0 1"
  have 1: "0 \<le> ProgramCounter ?s" "ProgramCounter ?s < MAX_PROG_LEN" "opcode_at ?s = Some OP_PRINT"
    "0 < StackSize ?s" "StackSize ?s \<le> MAX_STACK"
    by (simp_all add: example_defs)
  have 2: "deref ?s (stack_top ?s 0) = Inr \<lparr>marked = False, member = Array [None, None]\<rparr>"
    by (simp add: example_defs)
  have 3: "type_of (member \<lparr>marked = False, member = Array [None, None]\<rparr>) = OBJ_ARRAY
     \<or> type_of (member \<lparr>marked = False, member = Array [None, None]\<rparr>) = OBJ_NATIVE"
    by simp
  have 4: "StackSize ?s - 1 = 0" "ProgramCounter ?s + 1 = 1"
    by (simp_all add: example_defs)
  from print_skips_other_types [OF 1 2 3, of plain_host 0] 1 2 show ?thesis
    by (simp only: 4)
qed

text \<open>
  Let the index on top of the stack convert to the \<^verbatim>\<open>int\<close> \<open>i\<close>, and the entry
  below it be an array of length \<open>length vs\<close>.
  \<^item> \<^verbatim>\<open>GETINDEX\<close> with \<open>0 \<le> i < length vs\<close> on a slot that holds \<^verbatim>\<open>NULL\<close>, as every slot
    does until it is written: when no collection is due the instruction completes; and
    whenever it completes, it has replaced the two operands by a pointer to an object
    at the next address of the allocator, which no object of the heap had before, and
    that object is an unmarked number with the value 0.
  \<^item> \<^verbatim>\<open>GETINDEX\<close> with \<open>i < 0\<close> or \<open>i \<ge> length vs\<close> ends the run with the diagnostic of
    an array index out of bounds. So does \<^verbatim>\<open>SETINDEX\<close>, whose index is the second entry
    from the top and whose array is the third.
\<close>

lemma index_access:
  assumes "0 \<le> ProgramCounter s" "ProgramCounter s < MAX_PROG_LEN" "StackSize s \<le> MAX_STACK"
  shows
    "(opcode_at s = Some OP_GETINDEX \<and> 2 \<le> StackSize s
        \<and> int_at s (stack_top s 0) = Inr i \<and> array_of s (stack_top s 1) = Inr vs
        \<and> 0 \<le> i \<and> i < int (length vs) \<and> vs ! nat i = None
      \<longrightarrow> (NumObjects s < MaxNumObjects s \<and> NumObjects s < INT_MAX
             \<longrightarrow> (\<exists>s'. ExecuteCycle H n s = Inr s'))
          \<and> (\<forall>s'. ExecuteCycle H n s = Inr s'
                \<longrightarrow> StackSize s' = StackSize s - 1
                    \<and> ProgramCounter s' = ProgramCounter s + 1
                    \<and> stack_top s' 0 = Some (NextAddress s)
                    \<and> deref s' (Some (NextAddress s)) = Inr \<lparr>marked = False, member = Number 0\<rparr>
                    \<and> (heap_below s \<longrightarrow> NextAddress s \<notin> fst ` set (GCHead s))))
     \<and> (opcode_at s = Some OP_GETINDEX \<and> 2 \<le> StackSize s
        \<and> int_at s (stack_top s 0) = Inr i \<and> array_of s (stack_top s 1) = Inr vs
        \<and> (i < 0 \<or> int (length vs) \<le> i)
      \<longrightarrow> ExecuteCycle H n s = Inl (Fatal (ArrayIndexOutOfBounds i)))
     \<and> (opcode_at s = Some OP_SETINDEX \<and> 3 \<le> StackSize s
        \<and> int_at s (stack_top s 1) = Inr i \<and> array_of s (stack_top s 2) = Inr vs
        \<and> (i < 0 \<or> int (length vs) \<le> i)
      \<longrightarrow> ExecuteCycle H n s = Inl (Fatal (ArrayIndexOutOfBounds i)))"
proof (intro conjI impI allI)
  assume a: "opcode_at s = Some OP_GETINDEX \<and> 2 \<le> StackSize s
        \<and> int_at s (stack_top s 0) = Inr i \<and> array_of s (stack_top s 1) = Inr vs
        \<and> 0 \<le> i \<and> i < int (length vs) \<and> vs ! nat i = None"
  then have e: "ExecuteCycle H n s = ExecuteCase OP_GETINDEX H n s"
    using assms by (simp add: ExecuteCycle_at)
  {
    assume "NumObjects s < MaxNumObjects s \<and> NumObjects s < INT_MAX"
    with a assms(3) show "\<exists>s'. ExecuteCycle H n s = Inr s'"
      unfolding e by (intro GETINDEX_returns [of s i vs]) simp_all
  }
  {
    fix s' assume "ExecuteCycle H n s = Inr s'"
    with e have "ExecuteCase OP_GETINDEX H n s = Inr s'" by simp
    with a assms(3) have "StackSize s' = StackSize s - 1 \<and> ProgramCounter s' = ProgramCounter s + 1
       \<and> stack_top s' 0 = Some (NextAddress s)
       \<and> deref s' (Some (NextAddress s)) = Inr \<lparr>marked = False, member = Number 0\<rparr>"
      by (intro GETINDEX_zero [of s i vs H n s']) simp_all
    then show "StackSize s' = StackSize s - 1" "ProgramCounter s' = ProgramCounter s + 1"
      "stack_top s' 0 = Some (NextAddress s)"
      "deref s' (Some (NextAddress s)) = Inr \<lparr>marked = False, member = Number 0\<rparr>"
      by simp_all
    assume "heap_below s"
    then show "NextAddress s \<notin> fst ` set (GCHead s)"
      by (auto simp: heap_below_def)
  }
next
  assume a: "opcode_at s = Some OP_GETINDEX \<and> 2 \<le> StackSize s
        \<and> int_at s (stack_top s 0) = Inr i \<and> array_of s (stack_top s 1) = Inr vs
        \<and> (i < 0 \<or> int (length vs) \<le> i)"
  then have "ExecuteCycle H n s = ExecuteCase OP_GETINDEX H n s"
    using assms by (simp add: ExecuteCycle_at)
  also from a assms(3) have "\<dots> = Inl (Fatal (ArrayIndexOutOfBounds i))"
    by (intro GETINDEX_outside [of s i vs]) simp_all
  finally show "ExecuteCycle H n s = Inl (Fatal (ArrayIndexOutOfBounds i))" .
next
  assume a: "opcode_at s = Some OP_SETINDEX \<and> 3 \<le> StackSize s
        \<and> int_at s (stack_top s 1) = Inr i \<and> array_of s (stack_top s 2) = Inr vs
        \<and> (i < 0 \<or> int (length vs) \<le> i)"
  then have "ExecuteCycle H n s = ExecuteCase OP_SETINDEX H n s"
    using assms by (simp add: ExecuteCycle_at)
  also from a assms(3) have "\<dots> = Inl (Fatal (ArrayIndexOutOfBounds i))"
    by (intro SETINDEX_outside [of s i vs]) simp_all
  finally show "ExecuteCycle H n s = Inl (Fatal (ArrayIndexOutOfBounds i))" .
qed

lemma index_access_example:
  "(\<exists>s'. ExecuteCycle plain_host 0 (index_example 30 0x3FF0000000000000 2) = Inr s'
        \<and> StackSize s' = 1 \<and> ProgramCounter s' = 1 \<and> stack_top s' 0 = Some 4
        \<and> deref s' (Some 4) = Inr \<lparr>marked = False, member = Number 0\<rparr>)
   \<and> 4 \<notin> fst ` set (GCHead (index_example 30 0x3FF0000000000000 2))
   \<and> ExecuteCycle plain_host 0 (index_example 30 0x4000000000000000 2)
       = Inl (Fatal (ArrayIndexOutOfBounds 2))
   \<and> ExecuteCycle plain_host 0 (index_example 30 0xBFF0000000000000 2)
       = Inl (Fatal (ArrayIndexOutOfBounds (- 1)))
   \<and> ExecuteCycle plain_host 0 (index_example 29 0x4000000000000000 3)
       = Inl (Fatal (ArrayIndexOutOfBounds 2))"
proof -
  let ?a = "index_example 30 0x3FF0000000000000 2"
  let ?b = "index_example 30 0x4000000000000000 2"
  let ?c = "index_example 30 0xBFF0000000000000 2"
  let ?d = "index_example 29 0x4000000000000000 3"
  have a: "0 \<le> ProgramCounter ?a" "ProgramCounter ?a < MAX_PROG_LEN" "StackSize ?a \<le> MAX_STACK"
    by (simp_all add: example_defs)
  have a': "opcode_at ?a = Some OP_GETINDEX \<and> 2 \<le> StackSize ?a
        \<and> int_at ?a (stack_top ?a 0) = Inr 1 \<and> array_of ?a (stack_top ?a 1) = Inr [None, None]
        \<and> 0 \<le> (1::int) \<and> 1 < int (length [None :: nat option, None]) \<and> [None :: nat option, None] ! nat 1 = None"
    by (simp add: example_defs)
  have a'': "NumObjects ?a < MaxNumObjects ?a \<and> NumObjects ?a < INT_MAX" "heap_below ?a"
    "NextAddress ?a = 4" "StackSize ?a - 1 = 1" "ProgramCounter ?a + 1 = 1"
    by (simp_all add: example_defs INT_MAX_def heap_below_def)
  note A = index_access [OF a, of 1 "[None, None]" plain_host 0, THEN conjunct1, rule_format, OF a']
  from A [THEN conjunct1, rule_format, OF a''(1)] obtain s' where s': "ExecuteCycle plain_host 0 ?a = Inr s'" ..
  from A [THEN conjunct2, rule_format, OF s'] a'' s'
  have 1: "\<exists>s'. ExecuteCycle plain_host 0 ?a = Inr s'
        \<and> StackSize s' = 1 \<and> ProgramCounter s' = 1 \<and> stack_top s' 0 = Some 4
        \<and> deref s' (Some 4) = Inr \<lparr>marked = False, member = Number 0\<rparr>"
    and 2: "4 \<notin> fst ` set (GCHead ?a)"
    by auto
  have b: "0 \<le> ProgramCounter ?b" "ProgramCounter ?b < MAX_PROG_LEN" "StackSize ?b \<le> MAX_STACK"
    by (simp_all add: example_defs)
  have b': "opcode_at ?b = Some OP_GETINDEX \<and> 2 \<le> StackSize ?b
        \<and> int_at ?b (stack_top ?b 0) = Inr 2 \<and> array_of ?b (stack_top ?b 1) = Inr [None, None]
        \<and> ((2::int) < 0 \<or> int (length [None :: nat option, None]) \<le> 2)"
    by (simp add: example_defs)
  note 3 = index_access [OF b, of 2 "[None, None]" plain_host 0, THEN conjunct2, THEN conjunct1,
      rule_format, OF b']
  have c: "0 \<le> ProgramCounter ?c" "ProgramCounter ?c < MAX_PROG_LEN" "StackSize ?c \<le> MAX_STACK"
    by (simp_all add: example_defs)
  have c': "opcode_at ?c = Some OP_GETINDEX \<and> 2 \<le> StackSize ?c
        \<and> int_at ?c (stack_top ?c 0) = Inr (- 1) \<and> array_of ?c (stack_top ?c 1) = Inr [None, None]
        \<and> ((- 1::int) < 0 \<or> int (length [None :: nat option, None]) \<le> - 1)"
    by (simp add: example_defs)
  note 4 = index_access [OF c, of "- 1" "[None, None]" plain_host 0, THEN conjunct2, THEN conjunct1,
      rule_format, OF c']
  have d: "0 \<le> ProgramCounter ?d" "ProgramCounter ?d < MAX_PROG_LEN" "StackSize ?d \<le> MAX_STACK"
    by (simp_all add: example_defs)
  have d': "opcode_at ?d = Some OP_SETINDEX \<and> 3 \<le> StackSize ?d
        \<and> int_at ?d (stack_top ?d 1) = Inr 2 \<and> array_of ?d (stack_top ?d 2) = Inr [None, None]
        \<and> ((2::int) < 0 \<or> int (length [None :: nat option, None]) \<le> 2)"
    by (simp add: example_defs)
  note 5 = index_access [OF d, of 2 "[None, None]" plain_host 0, THEN conjunct2, THEN conjunct2,
      rule_format, OF d']
  from 1 2 3 4 5 show ?thesis by blast
qed

subsection \<open>Runs of whole programs\<close>

lemmas gc_defs =
  NewObject_def allocate_def GarbageCollect_def MarkAll_def Sweep_def set_member_def
  update_object_def BIN_OP_def number_of_def deref_def RunMachine_def
  NewArray_def NewNumber_def PopInt_def array_of_def cast_int_def double_to_int_def

lemma Steps_numeral:
  "Steps H n (numeral k) s = thenE (ExecuteCycle H n s) (Steps H n (pred_numeral k))"
  by (simp only: numeral_eq_Suc Steps.simps)

lemma Cycles_numeral:
  "Cycles H n (numeral k) s =
     (if running s then thenE (ExecuteCycle H n s) (Cycles H n (pred_numeral k)) else Inr s)"
  by (simp only: numeral_eq_Suc Cycles.simps)

text \<open>
  C2. The operands of a binary instruction are not reachable from a root when the
  result is allocated. In the run of \<^verbatim>\<open>write 1 + 2 end\<close>, after the two pushes the
  machine is at \<^verbatim>\<open>ADD\<close> with the numbers 1 and 2 on the stack, two live objects and
  the threshold 2. \<^verbatim>\<open>ADD\<close> pops both and allocates: the allocation collects with
  an empty stack and frees both operands, and the instruction then reads them.
\<close>

theorem operands_freed_before_use:
  "\<exists>s. Steps H n 2 (sum_example\<lparr>ProgramCounter := 0\<rparr>) = Inr s
      \<and> running s \<and> opcode_at s = Some OP_ADD
      \<and> StackSize s = 2 \<and> stack_top s 1 = Some 1 \<and> stack_top s 0 = Some 2
      \<and> number_of s (Some 1) = Inr 0x3FF0000000000000
      \<and> number_of s (Some 2) = Inr 0x4000000000000000
      \<and> NumObjects s = 2 \<and> MaxNumObjects s = 2
      \<and> (\<exists>z g. NewObject n OBJ_NUM (s\<lparr>StackSize := 0\<rparr>) = Inr (z, g)
            \<and> number_of g (Some 1) = Inl (Undefined ''freed object used'')
            \<and> number_of g (Some 2) = Inl (Undefined ''freed object used''))
      \<and> ExecuteCycle H n s = Inl (Undefined ''freed object used'')"
  by (simp add: exec_defs gc_defs sum_example_def Steps_numeral stack_top_def)

subsection \<open>Marking an array that holds itself\<close>

lemma self_array_D:
  assumes "self_array s a"
  obtains ob vs where "map_of (GCHead s) a = Some ob" "\<not> marked ob" "member ob = Array (Some a # vs)"
  using assms
  by (auto simp: self_array_def neq_Nil_conv split: option.splits Member.splits)

lemma Mark_self_array:
  assumes "self_array s a"
  shows "Mark n (Some a) s = Inl OutOfFuel \<and> MarkValues n a 0 s = Inl OutOfFuel"
proof -
  from assms obtain ob vs where m: "map_of (GCHead s) a = Some ob" "\<not> marked ob"
    "member ob = Array (Some a # vs)"
    by (rule self_array_D)
  then have arr: "array_of s (Some a) = Inr (Some a # vs)"
    by (simp add: array_of_def deref_def)
  show ?thesis
  proof (induction n)
    case 0
    show ?case by simp
  next
    case (Suc n)
    from Suc m have "Mark (Suc n) (Some a) s = Inl OutOfFuel" by simp
    moreover from Suc arr have "MarkValues (Suc n) a 0 s = Inl OutOfFuel" by simp
    ultimately show ?case by simp
  qed
qed

lemma self_array_heap: "GCHead s' = GCHead s \<Longrightarrow> self_array s' a = self_array s a"
  by (simp add: self_array_def)

lemma collect_self_array:
  assumes "self_array s a" "StackSize s = 0" "RuntimeVariableAmount s = 1"
    "object (Variables s 0) = Some a"
  shows "GarbageCollect n s = Inl OutOfFuel"
  using assms Mark_self_array [OF assms(1), of n]
  by (simp add: GarbageCollect_def MarkAll_def MAX_STACK_def MAX_VARS_def)

text \<open>
  C3. \<^verbatim>\<open>Mark\<close> sets the mark bit after it has visited the slots of an array, so on an
  array that holds itself it calls itself on the same unmarked object again and again.
  In the run of \<^verbatim>\<open>a = [1]  a[0] = a  b = 1\<close>, after seven instructions the global 0
  is such an array; from there no amount of fuel lets \<^verbatim>\<open>Mark\<close> return on it, nor the
  collection, nor the next instruction, whose allocation collects.
\<close>

theorem mark_loops_on_cyclic_array:
  "\<exists>s. Steps plain_host (Suc (Suc (Suc 0))) 7 (cycle_example\<lparr>ProgramCounter := 0\<rparr>) = Inr s
      \<and> running s \<and> opcode_at s = Some OP_PUSH
      \<and> map_of (GCHead s) 2 = Some \<lparr>marked = False, member = Array [Some 2]\<rparr>
      \<and> StackSize s = 0 \<and> RuntimeVariableAmount s = 1 \<and> object (Variables s 0) = Some 2
      \<and> (\<forall>n. Mark n (Some 2) s = Inl OutOfFuel)
      \<and> (\<forall>n. GarbageCollect n s = Inl OutOfFuel)
      \<and> (\<forall>H n. ExecuteCycle H n s = Inl OutOfFuel)"
proof -
  have "\<exists>s. Steps plain_host (Suc (Suc (Suc 0))) 7 (cycle_example\<lparr>ProgramCounter := 0\<rparr>) = Inr s
      \<and> running s \<and> opcode_at s = Some OP_PUSH
      \<and> map_of (GCHead s) 2 = Some \<lparr>marked = False, member = Array [Some 2]\<rparr>
      \<and> StackSize s = 0 \<and> RuntimeVariableAmount s = 1 \<and> object (Variables s 0) = Some 2
      \<and> 0 \<le> ProgramCounter s \<and> ProgramCounter s < MAX_PROG_LEN
      \<and> (\<exists>s1. ReadInteger (advance s) = Inr (0, s1) \<and> GCHead s1 = GCHead s
            \<and> StackSize s1 = 0 \<and> RuntimeVariableAmount s1 = 1 \<and> object (Variables s1 0) = Some 2
            \<and> ConstantAmount s1 = 2 \<and> Constants s1 0 = CST_NUM 0x3FF0000000000000
            \<and> MaxNumObjects s1 \<le> NumObjects s1)"
    by (simp add: exec_defs gc_defs cycle_example_def Steps_numeral)
  then obtain s s1 where s: "Steps plain_host (Suc (Suc (Suc 0))) 7 (cycle_example\<lparr>ProgramCounter := 0\<rparr>) = Inr s"
    "running s" "opcode_at s = Some OP_PUSH"
    "map_of (GCHead s) 2 = Some \<lparr>marked = False, member = Array [Some 2]\<rparr>"
    "StackSize s = 0" "RuntimeVariableAmount s = 1" "object (Variables s 0) = Some 2"
    and pc: "0 \<le> ProgramCounter s" "ProgramCounter s < MAX_PROG_LEN"
    and s1: "ReadInteger (advance s) = Inr (0, s1)" "GCHead s1 = GCHead s"
      "StackSize s1 = 0" "RuntimeVariableAmount s1 = 1" "object (Variables s1 0) = Some 2"
      "ConstantAmount s1 = 2" "Constants s1 0 = CST_NUM 0x3FF0000000000000"
      "MaxNumObjects s1 \<le> NumObjects s1"
    by blast
  from s(4) have sa: "self_array s 2" by (simp add: self_array_def)
  then have sa1: "self_array s1 2" by (simp add: self_array_heap [OF s1(2)])
  have m: "Mark n (Some 2) s = Inl OutOfFuel" for n
    using Mark_self_array [OF sa] by simp
  have g: "GarbageCollect n s = Inl OutOfFuel" for n
    using sa s(5-7) by (rule collect_self_array)
  have g1: "GarbageCollect n s1 = Inl OutOfFuel" for n
    using sa1 s1(3-5) by (rule collect_self_array)
  have e: "ExecuteCycle H n s = Inl OutOfFuel" for H n
    using pc s(3) s1 g1 [of n]
    by (simp add: ExecuteCycle_at NewObject_def)
  from s m g e show ?thesis by blast
qed

lemma replicate_numeral_cons: "replicate (numeral k) x = x # replicate (pred_numeral k) x"
  by (simp add: numeral_eq_Suc)

lemma map_of_update_other:
  "a \<noteq> b \<Longrightarrow> map_of (map (\<lambda>(c, ob). if c = b then (c, f ob) else (c, ob)) h) a = map_of h a"
  by (induction h) auto

lemma self_array_update_other:
  "a \<noteq> b \<Longrightarrow> self_array (update_object b f s) a = self_array s a"
  by (simp add: self_array_def update_object_def map_of_update_other)

lemma Mark_number_then_self_array:
  assumes "map_of (GCHead s) b = Some ob" "member ob = Number d" "self_array s a" "a \<noteq> b"
  shows "thenE (Mark n (Some b) s) (MarkRoots n (Some a # roots)) = Inl OutOfFuel"
proof (cases n)
  case 0
  then show ?thesis by simp
next
  case (Suc m)
  show ?thesis
  proof (cases "marked ob")
    case True
    with assms(1) Suc have "Mark n (Some b) s = Inr s" by simp
    with Mark_self_array [OF assms(3), of n] show ?thesis by simp
  next
    case False
    with assms(1,2) Suc
    have "Mark n (Some b) s = Inr (update_object b (\<lambda>ob. ob\<lparr>marked := True\<rparr>) s)"
      by simp
    moreover from assms(3,4) have "self_array (update_object b (\<lambda>ob. ob\<lparr>marked := True\<rparr>) s) a"
      by (simp add: self_array_update_other)
    ultimately show ?thesis
      using Mark_self_array [of "update_object b (\<lambda>ob. ob\<lparr>marked := True\<rparr>) s" a n] by simp
  qed
qed

lemma collect_number_then_self_array:
  assumes "map_of (GCHead s) b = Some ob" "member ob = Number d" "self_array s a" "a \<noteq> b"
    and "StackSize s = 0" "RuntimeVariableAmount s = 3"
    and "object (Variables s 0) = Some b" "object (Variables s (Suc 0)) = Some a"
  shows "GarbageCollect n s = Inl OutOfFuel"
proof -
  have "MarkAll n s = Inl OutOfFuel"
    using assms(5-8) Mark_number_then_self_array [OF assms(1-4)]
    by (simp add: MarkAll_def MAX_STACK_def MAX_VARS_def upt_numeral_snoc)
  then show ?thesis by (simp add: GarbageCollect_def)
qed

text \<open>
  C6. In the run of \<^verbatim>\<open>i = 1  a = [2]  a[0] = a  j = 5  write a[i] end\<close>, after thirteen
  instructions the machine is at \<^verbatim>\<open>GETINDEX\<close> with the index 1 on top of the stack and
  below it an array of length 2 whose slot 1 holds \<^verbatim>\<open>NULL\<close>. The index is in bounds,
  yet the instruction pushes nothing: its allocation of the number 0 collects, and
  marking the array, which holds itself in slot 0, does not return.
\<close>

theorem getindex_loops_in_collection:
  "\<exists>s. Steps plain_host (Suc (Suc (Suc (Suc 0)))) 13 (index_cycle_example\<lparr>ProgramCounter := 0\<rparr>) = Inr s
      \<and> running s \<and> opcode_at s = Some OP_GETINDEX
      \<and> 2 \<le> StackSize s \<and> StackSize s \<le> MAX_STACK
      \<and> int_at s (stack_top s 0) = Inr 1
      \<and> array_of s (stack_top s 1) = Inr [Some 3, None]
      \<and> [Some 3, None] ! nat 1 = None
      \<and> (\<forall>H n. ExecuteCycle H n s = Inl OutOfFuel)"
proof -
  have "\<exists>s. Steps plain_host (Suc (Suc (Suc (Suc 0)))) 13 (index_cycle_example\<lparr>ProgramCounter := 0\<rparr>) = Inr s
      \<and> running s \<and> opcode_at s = Some OP_GETINDEX
      \<and> StackSize s = 2
      \<and> int_at s (stack_top s 0) = Inr 1
      \<and> array_of s (stack_top s 1) = Inr [Some 3, None]
      \<and> 0 \<le> ProgramCounter s \<and> ProgramCounter s < MAX_PROG_LEN
      \<and> map_of (GCHead s) 1 = Some \<lparr>marked = False, member = Number 0x3FF0000000000000\<rparr>
      \<and> map_of (GCHead s) 3 = Some \<lparr>marked = False, member = Array [Some 3, None]\<rparr>
      \<and> RuntimeVariableAmount s = 3
      \<and> object (Variables s 0) = Some 1 \<and> object (Variables s (Suc 0)) = Some 3
      \<and> MaxNumObjects s \<le> NumObjects s"
    by (simp add: exec_defs gc_defs index_cycle_example_def Steps_numeral
        stack_top_def int_at_def upt_numeral_snoc replicate_numeral_cons)
  then obtain s where s: "Steps plain_host (Suc (Suc (Suc (Suc 0)))) 13 (index_cycle_example\<lparr>ProgramCounter := 0\<rparr>) = Inr s"
      "running s" "opcode_at s = Some OP_GETINDEX"
      "int_at s (stack_top s 0) = Inr 1" "array_of s (stack_top s 1) = Inr [Some 3, None]"
    and sz: "StackSize s = 2"
    and pc: "0 \<le> ProgramCounter s" "ProgramCounter s < MAX_PROG_LEN"
    and h: "map_of (GCHead s) 1 = Some \<lparr>marked = False, member = Number 0x3FF0000000000000\<rparr>"
      "map_of (GCHead s) 3 = Some \<lparr>marked = False, member = Array [Some 3, None]\<rparr>"
    and v: "RuntimeVariableAmount s = 3"
      "object (Variables s 0) = Some 1" "object (Variables s (Suc 0)) = Some 3"
    and due: "MaxNumObjects s \<le> NumObjects s"
    by blast
  let ?s2 = "s\<lparr>ProgramCounter := ProgramCounter s + 1, StackSize := StackSize s - 2\<rparr>"
  have b: "2 \<le> StackSize s" "StackSize s \<le> MAX_STACK"
    by (simp_all add: sz MAX_STACK_def)
  have a: "self_array ?s2 3" using h(2) by (simp add: self_array_def)
  have n: "map_of (GCHead ?s2) 1 = Some \<lparr>marked = False, member = Number 0x3FF0000000000000\<rparr>"
    using h(1) by simp
  have m: "member \<lparr>marked = False, member = Number 0x3FF0000000000000\<rparr> = Number 0x3FF0000000000000"
    by simp
  have g: "GarbageCollect n ?s2 = Inl OutOfFuel" for n
    using v sz by (intro collect_number_then_self_array [OF n m a]) simp_all
  have e: "ExecuteCycle H n s = Inl OutOfFuel" for H n
  proof -
    have "ExecuteCycle H n s = ExecuteCase OP_GETINDEX H n s"
      using pc s(3) by (simp add: ExecuteCycle_at)
    also have "\<dots> = thenE (NewNumber n 0 ?s2) (\<lambda>(zero, s3). DoPush (Some zero) s3)"
      using b s(4,5) by (intro GETINDEX_inside [where i = 1 and vs = "[Some 3, None]"]) simp_all
    also have "\<dots> = Inl OutOfFuel"
      using due g [of n] by (simp add: NewNumber_def NewObject_def)
    finally show ?thesis .
  qed
  from s b e show ?thesis by auto
qed

subsection \<open>Nested calls\<close>

lemma recursing_running: "recursing k s \<Longrightarrow> running s \<and> opcode_at s = Some OP_CALL"
  by (simp add: recursing_def exec_defs recursion_example_def)

lemma recursing_step:
  assumes "recursing k s" "k < 341"
  shows "\<exists>s'. ExecuteCycle H n s = Inr s' \<and> recursing (Suc k) s'"
  using assms
  by (simp add: recursing_def exec_defs recursion_example_def)

lemma recursing_end:
  assumes "recursing 341 s"
  shows "ExecuteCycle H n s = Inl (Undefined ''IndirStack written outside its array'')"
  using assms
  by (simp add: recursing_def exec_defs recursion_example_def)

lemma recursing_Steps:
  "recursing k s \<Longrightarrow> k + m \<le> 341 \<Longrightarrow> \<exists>s'. Steps H n m s = Inr s' \<and> recursing (k + m) s'"
proof (induction m arbitrary: k s)
  case 0
  then show ?case by simp
next
  case (Suc m)
  from Suc.prems have "k < 341" by simp
  from recursing_step [OF Suc.prems(1) this, of H n] obtain s1
    where 1: "ExecuteCycle H n s = Inr s1" "recursing (Suc k) s1" by blast
  from Suc.prems have "Suc k + m \<le> 341" by simp
  from Suc.IH [OF 1(2) this] 1(1) show ?case by simp
qed

lemma recursing_Cycles:
  "recursing k s \<Longrightarrow> k + m = 341 \<Longrightarrow>
   Cycles H n (Suc m + j) s = Inl (Undefined ''IndirStack written outside its array'')"
proof (induction m arbitrary: k s)
  case 0
  then have "recursing 341 s" by simp
  from recursing_end [OF this, of H n] recursing_running [OF \<open>recursing 341 s\<close>]
  show ?case by simp
next
  case (Suc m)
  from Suc.prems have "k < 341" by simp
  from recursing_step [OF Suc.prems(1) this, of H n] obtain s1
    where 1: "ExecuteCycle H n s = Inr s1" "recursing (Suc k) s1" by blast
  from Suc.prems have "Suc k + m = 341" by simp
  from Suc.IH [OF 1(2) this] 1(1) recursing_running [OF Suc.prems(1)] show ?case by simp
qed

lemma recursion_start:
  "\<exists>s. Steps H n 2 (recursion_example\<lparr>ProgramCounter := 0\<rparr>) = Inr s \<and> recursing 1 s
     \<and> Cycles H n (Suc (Suc k)) (recursion_example\<lparr>ProgramCounter := 0\<rparr>) = Cycles H n k s"
  by (simp add: recursing_def exec_defs recursion_example_def Steps_numeral)

lemma Steps_add: "Steps H n (a + b) s = thenE (Steps H n a s) (Steps H n b)"
proof (induction a arbitrary: s)
  case 0
  show ?case by simp
next
  case (Suc a)
  show ?case by (cases "ExecuteCycle H n s") (simp_all add: Suc)
qed

text \<open>
  C5. \<^verbatim>\<open>DoPushIndir\<close> writes three entries with no test against \<^verbatim>\<open>MAX_INDIR\<close>. In the
  run of \<^verbatim>\<open>proc f() f() end f()\<close> the first 341 calls succeed and leave 1023 entries on
  the indirection stack, whose capacity is 1024. The next call writes its first entry
  at index 1023 and its second at index 1024, outside the array: the run does not end
  with a diagnostic, it overruns the array, and so does every longer run.
\<close>

theorem indirection_stack_overrun:
  "(\<exists>s. Steps H n 342 (recursion_example\<lparr>ProgramCounter := 0\<rparr>) = Inr s
       \<and> running s \<and> opcode_at s = Some OP_CALL
       \<and> IndirStackSize s = 1023 \<and> MAX_INDIR = 1024
       \<and> ExecuteCycle H n s = Inl (Undefined ''IndirStack written outside its array''))
   \<and> RunMachine H n (343 + j) recursion_example
       = Inl (Undefined ''IndirStack written outside its array'')"
proof -
  from recursion_start [of H n "341 + j"] obtain s2
    where 1: "Steps H n 2 (recursion_example\<lparr>ProgramCounter := 0\<rparr>) = Inr s2" "recursing 1 s2"
      and 2: "Cycles H n (Suc (Suc (341 + j))) (recursion_example\<lparr>ProgramCounter := 0\<rparr>)
                = Cycles H n (341 + j) s2"
    by blast
  from recursing_Steps [OF 1(2), of 340 H n] obtain s
    where 3: "Steps H n 340 s2 = Inr s" "recursing 341 s" by auto
  have "Steps H n (2 + 340) (recursion_example\<lparr>ProgramCounter := 0\<rparr>) = Inr s"
    by (simp only: Steps_add 1(1) 3(1) thenE_simps)
  then have a: "Steps H n 342 (recursion_example\<lparr>ProgramCounter := 0\<rparr>) = Inr s" by simp
  from 3(2) have b: "IndirStackSize s = 1023" by (simp add: recursing_def)
  from recursing_Cycles [OF 1(2), of 340 H n j]
  have "Cycles H n (341 + j) s2 = Inl (Undefined ''IndirStack written outside its array'')"
    by simp
  with 2 have "RunMachine H n (Suc (Suc (341 + j))) recursion_example
       = Inl (Undefined ''IndirStack written outside its array'')"
    by (simp only: RunMachine_def)
  moreover have "Suc (Suc (341 + j)) = 343 + j" by simp
  ultimately have c: "RunMachine H n (343 + j) recursion_example
       = Inl (Undefined ''IndirStack written outside its array'')"
    by (simp only:)
  from a b c recursing_running [OF 3(2)] recursing_end [OF 3(2), of H n] show ?thesis
    by (simp add: MAX_INDIR_def)
qed

subsection \<open>When the collector runs\<close>

lemma map_fst_update: "map fst (map (\<lambda>(c, ob). if c = b then (c, f ob) else (c, ob)) h) = map fst h"
  by (induction h) auto

lemma Mark_same_objects:
  "(\<forall>p s s'. Mark n p s = Inr s' \<longrightarrow> same_objects s s')
   \<and> (\<forall>cs s s'. MarkHook n cs s = Inr s' \<longrightarrow> same_objects s s')
   \<and> (\<forall>a i s s'. MarkValues n a i s = Inr s' \<longrightarrow> same_objects s s')"
  by (rule Mark_related) (auto simp add: same_objects_def update_object_def split: prod.splits)

lemma MarkRoots_same_objects: "MarkRoots n roots s = Inr s' \<Longrightarrow> same_objects s s'"
proof (induction roots arbitrary: s)
  case Nil
  then show ?case by (simp add: same_objects_def)
next
  case (Cons r roots)
  then obtain s1 where 1: "Mark n r s = Inr s1" "MarkRoots n roots s1 = Inr s'"
    by (auto simp: thenE_eq_Inr)
  from 1(1) have "same_objects s s1" using Mark_same_objects [of n] by blast
  moreover from Cons.IH [OF 1(2)] have "same_objects s1 s'" .
  ultimately show ?case by (simp add: same_objects_def)
qed

lemma MarkAll_same_objects: "MarkAll n s = Inr s' \<Longrightarrow> same_objects s s'"
proof -
  assume "MarkAll n s = Inr s'"
  then obtain s1 where "same_objects s s1" "same_objects s1 s'"
    by (auto simp: MarkAll_def thenE_eq_Inr split: if_splits dest!: MarkRoots_same_objects)
  then show ?thesis by (simp add: same_objects_def)
qed

lemma sweep_list_count:
  "sweep_list h k = (kept, k') \<Longrightarrow> k' - int (length kept) = k - int (length h)"
proof (induction h arbitrary: k kept k')
  case Nil
  then show ?case by simp
next
  case (Cons x h)
  obtain a ob where x: "x = (a, ob)" by (cases x)
  show ?case
  proof (cases "marked ob")
    case False
    with Cons.prems x have "sweep_list h (k - 1) = (kept, k')" by simp
    from Cons.IH [OF this] show ?thesis by simp
  next
    case True
    obtain kept1 k1 where r: "sweep_list h k = (kept1, k1)" by (cases "sweep_list h k")
    with Cons.prems x True have "kept = (a, ob\<lparr>marked := False\<rparr>) # kept1" "k' = k1" by simp_all
    with Cons.IH [OF r] show ?thesis by simp
  qed
qed

lemma Sweep_count:
  "NumObjects (Sweep s) - int (length (GCHead (Sweep s))) = NumObjects s - int (length (GCHead s))"
proof -
  obtain kept k where r: "sweep_list (GCHead s) (NumObjects s) = (kept, k)"
    by (cases "sweep_list (GCHead s) (NumObjects s)")
  from sweep_list_count [OF r] r show ?thesis by (simp add: Sweep_def)
qed

lemma GarbageCollect_Inr:
  assumes "GarbageCollect n s = Inr g"
  shows "\<exists>m. MarkAll n s = Inr m \<and> g = (Sweep m)\<lparr>MaxNumObjects := NumObjects (Sweep m) * 2\<rparr>"
  using assms by (auto simp: GarbageCollect_def thenE_eq_Inr Let_def split: if_splits)

lemma GarbageCollect_count:
  assumes "GarbageCollect n s = Inr g" "NumObjects s = int (length (GCHead s))"
  shows "NumObjects g = int (length (GCHead g))"
proof -
  from GarbageCollect_Inr [OF assms(1)] obtain m
    where m: "MarkAll n s = Inr m" "g = (Sweep m)\<lparr>MaxNumObjects := NumObjects (Sweep m) * 2\<rparr>"
    by blast
  from MarkAll_same_objects [OF m(1)] have "NumObjects m = NumObjects s"
    "length (GCHead m) = length (GCHead s)"
    by (simp_all add: same_objects_def) (metis length_map)
  with assms(2) Sweep_count [of m] m(2) show ?thesis by simp
qed

text \<open>
  C9. The trigger of the collection.
  \<^item> An allocation with fewer objects than the threshold does not collect: the new
    object is linked in front of the list as it was, the count goes up by one, and
    the threshold stays.
  \<^item> An allocation with at least as many objects as the threshold collects first: if
    it returns, the collection has returned, and the object is linked in front of the
    list the collection left; if the collection fails, so does the allocation.
  \<^item> A collection that returns is the sweep of the marked machine, with the threshold
    set to twice the count after the sweep; when the count was the length of the list
    before, it is the length of the list of survivors after. The collection returns
    whenever marking does and twice the count is an \<^verbatim>\<open>int\<close>.
  \<^item> After \<^verbatim>\<open>InitInterpreter\<close> the threshold is 2 and the count is 0.
\<close>

theorem collection_trigger:
  "(NumObjects s < MaxNumObjects s \<and> NumObjects s < INT_MAX \<longrightarrow>
      NewObject n ty s =
        Inr (NextAddress s,
             s\<lparr>GCHead := (NextAddress s, \<lparr>marked = False, member = Unwritten ty\<rparr>) # GCHead s,
               NumObjects := NumObjects s + 1,
               NextAddress := Suc (NextAddress s)\<rparr>))
   \<and> (MaxNumObjects s \<le> NumObjects s \<and> NewObject n ty s = Inr (a, s') \<longrightarrow>
        (\<exists>g. GarbageCollect n s = Inr g
           \<and> MaxNumObjects s' = 2 * NumObjects g \<and> NumObjects s' = NumObjects g + 1
           \<and> GCHead s' = (a, \<lparr>marked = False, member = Unwritten ty\<rparr>) # GCHead g))
   \<and> (MaxNumObjects s \<le> NumObjects s \<and> GarbageCollect n s = Inl e \<longrightarrow> NewObject n ty s = Inl e)
   \<and> (GarbageCollect n s = Inr g \<longrightarrow>
        MaxNumObjects g = 2 * NumObjects g
        \<and> (\<exists>m. MarkAll n s = Inr m \<and> GCHead g = GCHead (Sweep m) \<and> NumObjects g = NumObjects (Sweep m))
        \<and> (NumObjects s = int (length (GCHead s)) \<longrightarrow> NumObjects g = int (length (GCHead g))))
   \<and> (MarkAll n s = Inr m \<and> int_range (NumObjects (Sweep m) * 2) \<longrightarrow>
        GarbageCollect n s = Inr ((Sweep m)\<lparr>MaxNumObjects := NumObjects (Sweep m) * 2\<rparr>))
   \<and> MaxNumObjects (InitInterpreter z) = 2 \<and> NumObjects (InitInterpreter z) = 0"
proof (intro conjI impI)
  assume "NumObjects s < MaxNumObjects s \<and> NumObjects s < INT_MAX"
  then show "NewObject n ty s =
        Inr (NextAddress s,
             s\<lparr>GCHead := (NextAddress s, \<lparr>marked = False, member = Unwritten ty\<rparr>) # GCHead s,
               NumObjects := NumObjects s + 1,
               NextAddress := Suc (NextAddress s)\<rparr>)"
    by (simp add: NewObject_def allocate_def)
next
  assume a: "MaxNumObjects s \<le> NumObjects s \<and> NewObject n ty s = Inr (a, s')"
  then obtain g where g: "GarbageCollect n s = Inr g" "allocate ty g = Inr (a, s')"
    by (auto simp: NewObject_def thenE_eq_Inr)
  from GarbageCollect_Inr [OF g(1)] have "MaxNumObjects g = 2 * NumObjects g" by auto
  with g show "\<exists>g. GarbageCollect n s = Inr g
           \<and> MaxNumObjects s' = 2 * NumObjects g \<and> NumObjects s' = NumObjects g + 1
           \<and> GCHead s' = (a, \<lparr>marked = False, member = Unwritten ty\<rparr>) # GCHead g"
    by (auto simp: allocate_def split: if_splits)
next
  assume "MaxNumObjects s \<le> NumObjects s \<and> GarbageCollect n s = Inl e"
  then show "NewObject n ty s = Inl e" by (simp add: NewObject_def)
next
  assume g: "GarbageCollect n s = Inr g"
  from GarbageCollect_Inr [OF g] show "MaxNumObjects g = 2 * NumObjects g" by auto
  from GarbageCollect_Inr [OF g]
  show "\<exists>m. MarkAll n s = Inr m \<and> GCHead g = GCHead (Sweep m) \<and> NumObjects g = NumObjects (Sweep m)"
    by auto
  assume "NumObjects s = int (length (GCHead s))"
  with g show "NumObjects g = int (length (GCHead g))" by (rule GarbageCollect_count)
next
  assume "MarkAll n s = Inr m \<and> int_range (NumObjects (Sweep m) * 2)"
  then show "GarbageCollect n s = Inr ((Sweep m)\<lparr>MaxNumObjects := NumObjects (Sweep m) * 2\<rparr>)"
    by (simp add: GarbageCollect_def int_range_def Let_def)
next
  show "MaxNumObjects (InitInterpreter z) = 2" by (simp add: InitInterpreter_def)
  show "NumObjects (InitInterpreter z) = 0" by (simp add: InitInterpreter_def ResetMachine_def)
qed

theorem collection_trigger_witness:
  "NewObject 0 OBJ_NUM (InitInterpreter zero_machine) =
     Inr (NextAddress (InitInterpreter zero_machine),
          (InitInterpreter zero_machine)
            \<lparr>GCHead := (NextAddress (InitInterpreter zero_machine),
                         \<lparr>marked = False, member = Unwritten OBJ_NUM\<rparr>)
                       # GCHead (InitInterpreter zero_machine),
              NumObjects := NumObjects (InitInterpreter zero_machine) + 1,
              NextAddress := Suc (NextAddress (InitInterpreter zero_machine))\<rparr>)
   \<and> (\<exists>a s' g m.
         MaxNumObjects full_heap_example \<le> NumObjects full_heap_example
         \<and> NumObjects full_heap_example = int (length (GCHead full_heap_example))
         \<and> NewObject (Suc (Suc 0)) OBJ_NUM full_heap_example = Inr (a, s')
         \<and> GarbageCollect (Suc (Suc 0)) full_heap_example = Inr g
         \<and> MarkAll (Suc (Suc 0)) full_heap_example = Inr m
         \<and> g = (Sweep m)\<lparr>MaxNumObjects := NumObjects (Sweep m) * 2\<rparr>
         \<and> MaxNumObjects g = 2 * NumObjects g
         \<and> NumObjects g = int (length (GCHead g))
         \<and> MaxNumObjects s' = 2 * NumObjects g \<and> NumObjects s' = NumObjects g + 1
         \<and> GCHead s' = (a, \<lparr>marked = False, member = Unwritten OBJ_NUM\<rparr>) # GCHead g)
   \<and> GarbageCollect 0 full_heap_example = Inl OutOfFuel
   \<and> NewObject 0 OBJ_NUM full_heap_example = Inl OutOfFuel
   \<and> MaxNumObjects (InitInterpreter zero_machine) = 2
   \<and> NumObjects (InitInterpreter zero_machine) = 0"
proof -
  let ?i = "InitInterpreter zero_machine"
  let ?f = "full_heap_example"
  let ?n = "Suc (Suc 0)"
  have i: "NumObjects ?i < MaxNumObjects ?i \<and> NumObjects ?i < INT_MAX"
    by (simp add: InitInterpreter_def ResetMachine_def INT_MAX_def)
  from collection_trigger [where s = ?i and n = 0 and ty = OBJ_NUM] i
  have 1: "NewObject 0 OBJ_NUM ?i =
     Inr (NextAddress ?i,
          ?i\<lparr>GCHead := (NextAddress ?i, \<lparr>marked = False, member = Unwritten OBJ_NUM\<rparr>) # GCHead ?i,
              NumObjects := NumObjects ?i + 1,
              NextAddress := Suc (NextAddress ?i)\<rparr>)"
    by blast
  have f: "MaxNumObjects ?f \<le> NumObjects ?f" "NumObjects ?f = int (length (GCHead ?f))"
    by (simp_all add: full_heap_example_def InitInterpreter_def ResetMachine_def)
  have "\<exists>a s' g m. NewObject ?n OBJ_NUM ?f = Inr (a, s') \<and> GarbageCollect ?n ?f = Inr g
      \<and> MarkAll ?n ?f = Inr m \<and> int_range (NumObjects (Sweep m) * 2)"
    by (simp add: full_heap_example_def exec_defs gc_defs)
  then obtain a s' g m where r: "NewObject ?n OBJ_NUM ?f = Inr (a, s')"
    "GarbageCollect ?n ?f = Inr g" "MarkAll ?n ?f = Inr m" "int_range (NumObjects (Sweep m) * 2)"
    by blast
  note T = collection_trigger [where s = ?f and n = ?n and ty = OBJ_NUM and a = a and s' = s'
      and g = g and m = m]
  from T f(1) r(1) obtain g' where "GarbageCollect ?n ?f = Inr g'"
    "MaxNumObjects s' = 2 * NumObjects g'" "NumObjects s' = NumObjects g' + 1"
    "GCHead s' = (a, \<lparr>marked = False, member = Unwritten OBJ_NUM\<rparr>) # GCHead g'"
    by blast
  with r(2) have 2: "MaxNumObjects s' = 2 * NumObjects g" "NumObjects s' = NumObjects g + 1"
    "GCHead s' = (a, \<lparr>marked = False, member = Unwritten OBJ_NUM\<rparr>) # GCHead g"
    by simp_all
  from T r(2) f(2) have 3: "MaxNumObjects g = 2 * NumObjects g" "NumObjects g = int (length (GCHead g))"
    by blast+
  from T r(3,4) have "GarbageCollect ?n ?f = Inr ((Sweep m)\<lparr>MaxNumObjects := NumObjects (Sweep m) * 2\<rparr>)"
    by blast
  with r(2) have 4: "g = (Sweep m)\<lparr>MaxNumObjects := NumObjects (Sweep m) * 2\<rparr>" by simp
  have e: "GarbageCollect 0 ?f = Inl OutOfFuel"
    by (simp add: full_heap_example_def exec_defs gc_defs)
  from collection_trigger [where s = ?f and n = 0 and ty = OBJ_NUM and e = OutOfFuel] f(1) e
  have 5: "NewObject 0 OBJ_NUM ?f = Inl OutOfFuel" by blast
  from collection_trigger [where z = zero_machine]
  have 6: "MaxNumObjects ?i = 2" "NumObjects ?i = 0" by blast+
  from 1 f r(1,2,3) 2 3 4 e 5 6 show ?thesis by blast
qed

end
